theory Spec2Isabelle
  imports Main "HOL-Library.Word" "HOL-Library.Multiset"
begin

section \<open>Strings and errors of the JavaScript host\<close>

text \<open>
  A JavaScript string is a sequence of 16-bit code units. String literals of the
  source are written \<open>js ''...''\<close>.
\<close>

type_synonym jsstring = "16 word list"

definition js :: "string \<Rightarrow> jsstring" where
  "js s = map of_char s"

text \<open>
  The exceptions of the model: \<open>encodeURIComponent\<close> raises URIError on an unpaired
  surrogate, \<open>Date.prototype.toISOString\<close> raises RangeError on an invalid date and
  TypeError on a receiver that is not a Date, and a caller-supplied serializer may throw.
\<close>

datatype error = URIError | RangeError | TypeError | CustomSerializerFailure

definition bindE :: "error + 'a \<Rightarrow> ('a \<Rightarrow> error + 'b) \<Rightarrow> error + 'b" where
  "bindE m f = (case m of Inl e \<Rightarrow> Inl e | Inr x \<Rightarrow> f x)"

section \<open>encodeURIComponent\<close>

text \<open>
  The built-in of ECMAScript: a code unit of the unreserved set (letters, digits and
  \<open>- _ . ! ~ * ' ( )\<close>) is kept; any other code point is written as the octets of its
  UTF-8 encoding, each as \<open>%\<close> and two upper-case hexadecimal digits; a surrogate that
  is not part of a pair raises URIError.
\<close>

definition uriUnescaped :: "16 word \<Rightarrow> bool" where
  "uriUnescaped c =
     (let n = unat c in
        (0x41 \<le> n \<and> n \<le> 0x5A) \<or> (0x61 \<le> n \<and> n \<le> 0x7A) \<or> (0x30 \<le> n \<and> n \<le> 0x39)
        \<or> n \<in> {0x2D, 0x5F, 0x2E, 0x21, 0x7E, 0x2A, 0x27, 0x28, 0x29})"

definition hexDigit :: "nat \<Rightarrow> 16 word" where
  "hexDigit d = (if d < 10 then of_nat (0x30 + d) else of_nat (0x41 + (d - 10)))"

definition percentOctet :: "nat \<Rightarrow> jsstring" where
  "percentOctet b = [0x25, hexDigit (b div 16), hexDigit (b mod 16)]"

definition utf8 :: "nat \<Rightarrow> nat list" where
  "utf8 cp =
     (if cp < 0x80 then [cp]
      else if cp < 0x800 then [0xC0 + cp div 64, 0x80 + cp mod 64]
      else if cp < 0x10000 then
        [0xE0 + cp div 4096, 0x80 + (cp div 64) mod 64, 0x80 + cp mod 64]
      else
        [0xF0 + cp div 262144, 0x80 + (cp div 4096) mod 64,
         0x80 + (cp div 64) mod 64, 0x80 + cp mod 64])"

definition isLeadSurrogate :: "16 word \<Rightarrow> bool" where
  "isLeadSurrogate c = (0xD800 \<le> unat c \<and> unat c \<le> 0xDBFF)"

definition isTrailSurrogate :: "16 word \<Rightarrow> bool" where
  "isTrailSurrogate c = (0xDC00 \<le> unat c \<and> unat c \<le> 0xDFFF)"

definition pairCodePoint :: "16 word \<Rightarrow> 16 word \<Rightarrow> nat" where
  "pairCodePoint hi lo = 0x10000 + (unat hi - 0xD800) * 0x400 + (unat lo - 0xDC00)"

definition escapeCodePoint :: "nat \<Rightarrow> jsstring" where
  "escapeCodePoint cp = concat (map percentOctet (utf8 cp))"

fun encodeURIComponent :: "jsstring \<Rightarrow> error + jsstring" where
  "encodeURIComponent [] = Inr []"
| "encodeURIComponent (c # cs) =
     (if uriUnescaped c then bindE (encodeURIComponent cs) (\<lambda>r. Inr (c # r))
      else if isLeadSurrogate c then
        (case cs of
           [] \<Rightarrow> Inl URIError
         | d # ds \<Rightarrow>
             if isTrailSurrogate d
             then bindE (encodeURIComponent ds) (\<lambda>r. Inr (escapeCodePoint (pairCodePoint c d) @ r))
             else Inl URIError)
      else if isTrailSurrogate c then Inl URIError
      else bindE (encodeURIComponent cs) (\<lambda>r. Inr (escapeCodePoint (unat c) @ r)))"

section \<open>String.prototype.replace with a global literal pattern\<close>

text \<open>
  \<open>s.replace(/pat/g, rep)\<close> and \<open>s.replace(/pat/gi, rep)\<close> for a pattern without
  metacharacters: the string is scanned from the left, every match is replaced and the
  scan goes on after it. With the flag \<open>i\<close> two code units match when they are equal
  after \<open>canon\<close>, which maps the ASCII letters to upper case; it agrees with the
  canonicalization of ECMAScript wherever one of the two code units is ASCII, as every
  code unit of the patterns of \<open>encode\<close> is. The replacement strings of \<open>encode\<close> hold
  no substitution pattern (a \<open>$\<close> on its own stands for itself).
\<close>

definition canon :: "16 word \<Rightarrow> 16 word" where
  "canon c = (if 0x61 \<le> unat c \<and> unat c \<le> 0x7A then c - 0x20 else c)"

definition matchesAt :: "jsstring \<Rightarrow> bool \<Rightarrow> jsstring \<Rightarrow> bool" where
  "matchesAt pat ignoreCase s =
     (length pat \<le> length s \<and>
      (if ignoreCase then map canon (take (length pat) s) = map canon pat
       else take (length pat) s = pat))"

function replace_g :: "jsstring \<Rightarrow> bool \<Rightarrow> jsstring \<Rightarrow> jsstring \<Rightarrow> jsstring" where
  "replace_g pat ignoreCase rep s =
     (if pat = [] then concat (map (\<lambda>c. rep @ [c]) s) @ rep
      else if s = [] then []
      else if matchesAt pat ignoreCase s
        then rep @ replace_g pat ignoreCase rep (drop (length pat) s)
      else hd s # replace_g pat ignoreCase rep (tl s))"
  by pat_completeness auto
termination
  by (relation "measure (\<lambda>(pat, ignoreCase, rep, s). length s)") auto

section \<open>encode (helpers/url.ts)\<close>

text \<open>The seven \<open>.replace\<close> calls, in the order of the source.\<close>

definition encode :: "jsstring \<Rightarrow> error + jsstring" where
  "encode val =
     bindE (encodeURIComponent val) (\<lambda>s0.
       let s1 = replace_g (js ''%40'') False (js ''@'') s0;
           s2 = replace_g (js ''%3A'') True (js '':'') s1;
           s3 = replace_g (js ''%24'') False (js ''$'') s2;
           s4 = replace_g (js ''%2C'') True (js '','') s3;
           s5 = replace_g (js ''%20'') False (js ''+'') s4;
           s6 = replace_g (js ''%5B'') True (js ''['') s5;
           s7 = replace_g (js ''%5D'') True (js '']'') s6
       in Inr s7)"

section \<open>Values of the JavaScript host\<close>

text \<open>
  A Number is NaN, an infinity, one of the two zeros, or a finite nonzero double. The
  finite nonzero doubles are a type parameter \<open>'n\<close>: the program only prints them, and
  \<open>Number::toString\<close> on them is a parameter of the model (see \<open>host\<close> below).
\<close>

datatype 'n jsnumber = NaN | PosInfinity | NegInfinity | PosZero | NegZero | Finite 'n

text \<open>
  The values \<open>params\<close> and its members can be (\<open>params?: any\<close>). An array carries
  one entry per index below its length: \<open>Some\<close> of the element, or \<open>None\<close> where the
  array has a hole (\<open>['x', , 'z']\<close> has length 3 and no element at index 1). A Date
  carries its time value in milliseconds, \<open>None\<close> for an invalid date. An object carries
  its own enumerable string-keyed properties in the order \<open>Object.keys\<close> lists them. A
  URLSearchParams carries its list of name/value pairs.
\<close>

datatype 'n jsval =
    JUndefined
  | JNull
  | JBool bool
  | JNum "'n jsnumber"
  | JStr jsstring
  | JArr "'n jsval option list"
  | JDate "int option"
  | JObj "(jsstring \<times> 'n jsval) list"
  | JURLSearchParams "(jsstring \<times> jsstring) list"

text \<open>
  The two built-ins the model takes as parameters: \<open>Number::toString\<close> on finite
  nonzero doubles (floating point) and \<open>Date.prototype.toString\<close> on valid dates
  (local time zone).
\<close>

record 'n host =
  Number_toString :: "'n \<Rightarrow> jsstring"
  Date_toString :: "int \<Rightarrow> jsstring"

section \<open>Built-ins: joining, numbers, dates\<close>

fun join :: "jsstring \<Rightarrow> jsstring list \<Rightarrow> jsstring" where
  "join sep [] = []"
| "join sep [x] = x"
| "join sep (x # y # ys) = x @ sep @ join sep (y # ys)"

function decimal :: "nat \<Rightarrow> jsstring" where
  "decimal n =
     (if n < 10 then [of_nat (0x30 + n)]
      else decimal (n div 10) @ [of_nat (0x30 + n mod 10)])"
  by pat_completeness auto
termination
  by (relation "measure id") auto

definition padStart :: "nat \<Rightarrow> jsstring \<Rightarrow> jsstring" where
  "padStart w s = replicate (w - length s) 0x30 @ s"

definition numberToString :: "'n host \<Rightarrow> 'n jsnumber \<Rightarrow> jsstring" where
  "numberToString h n =
     (case n of
        NaN \<Rightarrow> js ''NaN''
      | PosInfinity \<Rightarrow> js ''Infinity''
      | NegInfinity \<Rightarrow> js ''-Infinity''
      | PosZero \<Rightarrow> js ''0''
      | NegZero \<Rightarrow> js ''0''
      | Finite x \<Rightarrow> Number_toString h x)"

definition isFiniteNumber :: "'n jsnumber \<Rightarrow> bool" where
  "isFiniteNumber n = (n \<noteq> NaN \<and> n \<noteq> PosInfinity \<and> n \<noteq> NegInfinity)"

text \<open>Year, month and day of a day number counted from 1970-01-01 (proleptic Gregorian).\<close>

definition civilFromDays :: "int \<Rightarrow> int \<times> int \<times> int" where
  "civilFromDays day =
     (let z = day + 719468;
          era = z div 146097;
          doe = z - era * 146097;
          yoe = (doe - doe div 1460 + doe div 36524 - doe div 146096) div 365;
          doy = doe - (365 * yoe + yoe div 4 - yoe div 100);
          mp = (5 * doy + 2) div 153;
          d = doy - (153 * mp + 2) div 5 + 1;
          m = (if mp < 10 then mp + 3 else mp - 9);
          y = yoe + era * 400 + (if m \<le> 2 then 1 else 0)
      in (y, m, d))"

definition yearString :: "int \<Rightarrow> jsstring" where
  "yearString y =
     (if 0 \<le> y \<and> y \<le> 9999 then padStart 4 (decimal (nat y))
      else (if y < 0 then js ''-'' else js ''+'') @ padStart 6 (decimal (nat \<bar>y\<bar>)))"

definition isoString :: "int \<Rightarrow> jsstring" where
  "isoString t =
     (let day = t div 86400000;
          ms = t mod 86400000;
          (y, m, d) = civilFromDays day
      in yearString y @ js ''-'' @ padStart 2 (decimal (nat m)) @ js ''-''
         @ padStart 2 (decimal (nat d)) @ js ''T''
         @ padStart 2 (decimal (nat (ms div 3600000))) @ js '':''
         @ padStart 2 (decimal (nat (ms div 60000 mod 60))) @ js '':''
         @ padStart 2 (decimal (nat (ms div 1000 mod 60))) @ js ''.''
         @ padStart 3 (decimal (nat (ms mod 1000))) @ js ''Z'')"

section \<open>Built-ins: URLSearchParams.prototype.toString\<close>

text \<open>
  The application/x-www-form-urlencoded serializer. The strings of a URLSearchParams
  are scalar value strings; a surrogate that is not part of a pair reads as U+FFFD.
\<close>

fun codePoints :: "jsstring \<Rightarrow> nat list" where
  "codePoints [] = []"
| "codePoints (c # cs) =
     (if isLeadSurrogate c then
        (case cs of
           [] \<Rightarrow> [0xFFFD]
         | d # ds \<Rightarrow>
             if isTrailSurrogate d then pairCodePoint c d # codePoints ds
             else 0xFFFD # codePoints cs)
      else if isTrailSurrogate c then 0xFFFD # codePoints cs
      else unat c # codePoints cs)"

definition urlencodedByte :: "nat \<Rightarrow> jsstring" where
  "urlencodedByte b =
     (if b = 0x20 then js ''+''
      else if b = 0x2A \<or> b = 0x2D \<or> b = 0x2E \<or> (0x30 \<le> b \<and> b \<le> 0x39)
              \<or> (0x41 \<le> b \<and> b \<le> 0x5A) \<or> b = 0x5F \<or> (0x61 \<le> b \<and> b \<le> 0x7A)
        then [of_nat b]
      else percentOctet b)"

definition urlencoded :: "jsstring \<Rightarrow> jsstring" where
  "urlencoded s = concat (map urlencodedByte (concat (map utf8 (codePoints s))))"

definition URLSearchParams_toString :: "(jsstring \<times> jsstring) list \<Rightarrow> jsstring" where
  "URLSearchParams_toString ps =
     join (js ''&'') (map (\<lambda>(name, val). urlencoded name @ js ''='' @ urlencoded val) ps)"

section \<open>Built-ins: ToString and JSON.stringify\<close>

fun ToString :: "'n host \<Rightarrow> 'n jsval \<Rightarrow> jsstring" where
  "ToString h JUndefined = js ''undefined''"
| "ToString h JNull = js ''null''"
| "ToString h (JBool b) = (if b then js ''true'' else js ''false'')"
| "ToString h (JNum n) = numberToString h n"
| "ToString h (JStr s) = s"
| "ToString h (JArr es) =
     join (js '','')
       (map (\<lambda>e. case e of
                   None \<Rightarrow> []
                 | Some v \<Rightarrow> if v = JUndefined \<or> v = JNull then [] else ToString h v) es)"
| "ToString h (JDate tv) =
     (case tv of None \<Rightarrow> js ''Invalid Date'' | Some t \<Rightarrow> Date_toString h t)"
| "ToString h (JObj kvs) = js ''[object Object]''"
| "ToString h (JURLSearchParams ps) = URLSearchParams_toString ps"

definition hexDigitLower :: "nat \<Rightarrow> 16 word" where
  "hexDigitLower d = (if d < 10 then of_nat (0x30 + d) else of_nat (0x61 + (d - 10)))"

definition unicodeEscape :: "16 word \<Rightarrow> jsstring" where
  "unicodeEscape c =
     (let n = unat c in
        [0x5C, 0x75, hexDigitLower (n div 4096), hexDigitLower (n div 256 mod 16),
         hexDigitLower (n div 16 mod 16), hexDigitLower (n mod 16)])"

fun quoteChars :: "jsstring \<Rightarrow> jsstring" where
  "quoteChars [] = []"
| "quoteChars (c # cs) =
     (if c = 0x08 then [0x5C, 0x62] @ quoteChars cs
      else if c = 0x09 then [0x5C, 0x74] @ quoteChars cs
      else if c = 0x0A then [0x5C, 0x6E] @ quoteChars cs
      else if c = 0x0C then [0x5C, 0x66] @ quoteChars cs
      else if c = 0x0D then [0x5C, 0x72] @ quoteChars cs
      else if c = 0x22 then [0x5C, 0x22] @ quoteChars cs
      else if c = 0x5C then [0x5C, 0x5C] @ quoteChars cs
      else if unat c < 0x20 then unicodeEscape c @ quoteChars cs
      else if isLeadSurrogate c then
        (case cs of
           [] \<Rightarrow> unicodeEscape c
         | d # ds \<Rightarrow>
             if isTrailSurrogate d then c # d # quoteChars ds
             else unicodeEscape c @ quoteChars cs)
      else if isTrailSurrogate c then unicodeEscape c @ quoteChars cs
      else c # quoteChars cs)"

definition QuoteJSONString :: "jsstring \<Rightarrow> jsstring" where
  "QuoteJSONString s = [0x22] @ quoteChars s @ [0x22]"

fun SerializeJSONProperty :: "'n host \<Rightarrow> 'n jsval \<Rightarrow> jsstring option" where
  "SerializeJSONProperty h JUndefined = None"
| "SerializeJSONProperty h JNull = Some (js ''null'')"
| "SerializeJSONProperty h (JBool b) = Some (if b then js ''true'' else js ''false'')"
| "SerializeJSONProperty h (JNum n) =
     Some (if isFiniteNumber n then numberToString h n else js ''null'')"
| "SerializeJSONProperty h (JStr s) = Some (QuoteJSONString s)"
| "SerializeJSONProperty h (JArr es) =
     Some (js ''['' @
           join (js '','')
             (map (\<lambda>e. case e of
                         None \<Rightarrow> js ''null''
                       | Some v \<Rightarrow>
                           (case SerializeJSONProperty h v of None \<Rightarrow> js ''null'' | Some t \<Rightarrow> t)) es)
           @ js '']'')"
| "SerializeJSONProperty h (JDate tv) =
     (case tv of
        None \<Rightarrow> Some (js ''null'')
      | Some t \<Rightarrow> Some (QuoteJSONString (isoString t)))"
| "SerializeJSONProperty h (JObj kvs) =
     Some (js ''{'' @
           join (js '','')
             (concat (map (\<lambda>kv. case SerializeJSONProperty h (snd kv) of
                                   None \<Rightarrow> []
                                 | Some t \<Rightarrow> [QuoteJSONString (fst kv) @ js '':'' @ t]) kvs))
           @ js ''}'')"
| "SerializeJSONProperty h (JURLSearchParams ps) = Some (js ''{}'')"

text \<open>\<open>JSON.stringify(val)\<close>: a string, or \<open>undefined\<close> when there is nothing to print.\<close>

definition JSON_stringify :: "'n host \<Rightarrow> 'n jsval \<Rightarrow> 'n jsval" where
  "JSON_stringify h v =
     (case SerializeJSONProperty h v of None \<Rightarrow> JUndefined | Some t \<Rightarrow> JStr t)"

section \<open>Built-ins: truthiness, type tests, property access\<close>

definition truthy :: "'n jsval \<Rightarrow> bool" where
  "truthy v =
     (case v of
        JUndefined \<Rightarrow> False
      | JNull \<Rightarrow> False
      | JBool b \<Rightarrow> b
      | JNum n \<Rightarrow> n \<noteq> NaN \<and> n \<noteq> PosZero \<and> n \<noteq> NegZero
      | JStr s \<Rightarrow> s \<noteq> []
      | _ \<Rightarrow> True)"

definition Array_isArray :: "'n jsval \<Rightarrow> bool" where
  "Array_isArray v = (case v of JArr es \<Rightarrow> True | _ \<Rightarrow> False)"

text \<open>
  The elements \<open>Array.prototype.forEach\<close> calls its callback on: those that are
  present, in index order; a hole is skipped.
\<close>

fun present :: "'a option list \<Rightarrow> 'a list" where
  "present [] = []"
| "present (None # es) = present es"
| "present (Some v # es) = v # present es"

definition arrayElements :: "'n jsval \<Rightarrow> 'n jsval list" where
  "arrayElements v = (case v of JArr es \<Rightarrow> present es | _ \<Rightarrow> [])"

text \<open>The indices that are present, from index \<open>i\<close> on, each with its element.\<close>

fun indexed :: "nat \<Rightarrow> 'a option list \<Rightarrow> (jsstring \<times> 'a) list" where
  "indexed i [] = []"
| "indexed i (None # es) = indexed (Suc i) es"
| "indexed i (Some v # es) = (decimal i, v) # indexed (Suc i) es"

text \<open>helpers/util.ts: \<open>toString.call(val) === '[object Date]'\<close>.\<close>

definition isDate :: "'n jsval \<Rightarrow> bool" where
  "isDate v = (case v of JDate tv \<Rightarrow> True | _ \<Rightarrow> False)"

text \<open>helpers/util.ts: \<open>val !== null && typeof val === 'object'\<close>.\<close>

definition isObject :: "'n jsval \<Rightarrow> bool" where
  "isObject v =
     (case v of
        JArr es \<Rightarrow> True
      | JDate tv \<Rightarrow> True
      | JObj kvs \<Rightarrow> True
      | JURLSearchParams ps \<Rightarrow> True
      | _ \<Rightarrow> False)"

text \<open>
  Modelled from the spec: \<open>isPlainObject\<close> is imported by the chapter 10 \<open>buildURL\<close>
  and declared in no file of the sources. The spec separates "a plain key/value object"
  from dates, sequences and pre-serialized containers, so it holds of \<open>JObj\<close> only.
\<close>

definition isPlainObject :: "'n jsval \<Rightarrow> bool" where
  "isPlainObject v = (case v of JObj kvs \<Rightarrow> True | _ \<Rightarrow> False)"

text \<open>helpers/util.ts: \<open>typeof val !== 'undefined' && val instanceof URLSearchParams\<close>.\<close>

definition isURLSearchParams :: "'n jsval \<Rightarrow> bool" where
  "isURLSearchParams v = (v \<noteq> JUndefined \<and> (case v of JURLSearchParams ps \<Rightarrow> True | _ \<Rightarrow> False))"

fun Date_toISOString :: "'n jsval \<Rightarrow> error + jsstring" where
  "Date_toISOString (JDate None) = Inl RangeError"
| "Date_toISOString (JDate (Some t)) = Inr (isoString t)"
| "Date_toISOString v = Inl TypeError"

text \<open>
  The own enumerable string-keyed properties of a value after \<open>ToObject\<close>: those of an
  object, the indices of an array that are present, the indices of a string; a number,
  a boolean, a Date and a URLSearchParams have none.
\<close>

fun ownEntries :: "'n jsval \<Rightarrow> (jsstring \<times> 'n jsval) list" where
  "ownEntries (JObj kvs) = kvs"
| "ownEntries (JArr es) = indexed 0 es"
| "ownEntries (JStr s) = zip (map decimal [0..<length s]) (map (\<lambda>c. JStr [c]) s)"
| "ownEntries v = []"

definition Object_keys :: "'n jsval \<Rightarrow> jsstring list" where
  "Object_keys v = map fst (ownEntries v)"

text \<open>\<open>params[key]\<close>, for a key that \<open>Object.keys\<close> listed.\<close>

definition getProp :: "'n jsval \<Rightarrow> jsstring \<Rightarrow> 'n jsval" where
  "getProp v key = (case map_of (ownEntries v) key of None \<Rightarrow> JUndefined | Some x \<Rightarrow> x)"

text \<open>\<open>url.indexOf(c)\<close> for a one-character search string: the first index, or -1.\<close>

fun indexOf :: "jsstring \<Rightarrow> 16 word \<Rightarrow> int" where
  "indexOf [] c = -1"
| "indexOf (x # xs) c =
     (if x = c then 0 else (let i = indexOf xs c in if i = -1 then -1 else i + 1))"

text \<open>\<open>url.slice(0, e)\<close> for a non-negative \<open>e\<close>.\<close>

definition slice0 :: "jsstring \<Rightarrow> int \<Rightarrow> jsstring" where
  "slice0 s e = take (nat e) s"

text \<open>
  \<open>xs.forEach(f)\<close> where the callback updates the array \<open>parts\<close> it closes over: the
  array is threaded through, and an exception of the callback ends the loop.
\<close>

fun forEach :: "('a \<Rightarrow> 's \<Rightarrow> error + 's) \<Rightarrow> 'a list \<Rightarrow> 's \<Rightarrow> error + 's" where
  "forEach f [] st = Inr st"
| "forEach f (x # xs) st = bindE (f x st) (forEach f xs)"

section \<open>buildURL (helpers/url.ts, chapter 10)\<close>

text \<open>
  The body of \<open>values.forEach(val => ...)\<close>: \<open>part\<close> is the date and plain-object
  conversion followed by the template string \<open>`${encode(key)}=${encode(val)}`\<close>, and
  \<open>pushPart\<close> is \<open>parts.push\<close> of it. \<open>encodeURIComponent\<close> converts its argument
  with \<open>ToString\<close>.
\<close>

definition part :: "'n host \<Rightarrow> jsstring \<Rightarrow> 'n jsval \<Rightarrow> error + jsstring" where
  "part h key val =
     bindE (if isDate val then bindE (Date_toISOString val) (\<lambda>t. Inr (JStr t))
            else if isPlainObject val then Inr (JSON_stringify h val)
            else Inr val) (\<lambda>val1.
     bindE (encode key) (\<lambda>ek.
     bindE (encode (ToString h val1)) (\<lambda>ev.
       Inr (ek @ js ''='' @ ev))))"

definition pushPart :: "'n host \<Rightarrow> jsstring \<Rightarrow> 'n jsval \<Rightarrow> jsstring list \<Rightarrow> error + jsstring list" where
  "pushPart h key val parts = bindE (part h key val) (\<lambda>p. Inr (parts @ [p]))"

text \<open>The body of \<open>Object.keys(params).forEach(key => ...)\<close>.\<close>

definition eachKey :: "'n host \<Rightarrow> 'n jsval \<Rightarrow> jsstring \<Rightarrow> jsstring list \<Rightarrow> error + jsstring list" where
  "eachKey h params key parts =
     (let val = getProp params key in
      if val = JNull \<or> val = JUndefined then Inr parts
      else
        let (values, key1) =
              (if Array_isArray val then (arrayElements val, key @ js ''[]'')
               else ([val], key))
        in forEach (pushPart h key1) values parts)"

text \<open>The \<open>else\<close> branch of the serializer choice: the parts, joined by \<open>&\<close>.\<close>

definition defaultSerialize :: "'n host \<Rightarrow> 'n jsval \<Rightarrow> error + jsstring" where
  "defaultSerialize h params =
     bindE (forEach (eachKey h params) (Object_keys params) [])
       (\<lambda>parts. Inr (join (js ''&'') parts))"

text \<open>The tail of \<open>buildURL\<close>, from \<open>if (serializedParams)\<close> on.\<close>

definition appendParams :: "jsstring \<Rightarrow> jsstring \<Rightarrow> jsstring" where
  "appendParams url serializedParams =
     (if serializedParams \<noteq> [] then
        let markIndex = indexOf url 0x23;
            url1 = (if markIndex \<noteq> -1 then slice0 url markIndex else url)
        in url1 @ (if indexOf url1 0x3F = -1 then js ''?'' else js ''&'') @ serializedParams
      else url)"

text \<open>The choice that assigns \<open>serializedParams\<close>: serializer, URLSearchParams, default.\<close>

definition serializeParams ::
  "'n host \<Rightarrow> 'n jsval \<Rightarrow> ('n jsval \<Rightarrow> error + jsstring) option \<Rightarrow> error + jsstring" where
  "serializeParams h params paramsSerializer =
     (case paramsSerializer of
        Some f \<Rightarrow> f params
      | None \<Rightarrow>
          if isURLSearchParams params then Inr (ToString h params)
          else defaultSerialize h params)"

definition buildURL ::
  "'n host \<Rightarrow> jsstring \<Rightarrow> 'n jsval \<Rightarrow> ('n jsval \<Rightarrow> error + jsstring) option \<Rightarrow> error + jsstring" where
  "buildURL h url params paramsSerializer =
     (if \<not> truthy params then Inr url
      else
        bindE (serializeParams h params paramsSerializer)
          (\<lambda>serializedParams. Inr (appendParams url serializedParams)))"

section \<open>buildURL (helpers/url.ts, chapter 4)\<close>

text \<open>
  The first version: no serializer, no URLSearchParams branch, and \<open>isObject\<close> where the
  later version tests \<open>isPlainObject\<close>.
\<close>

definition part_v1 :: "'n host \<Rightarrow> jsstring \<Rightarrow> 'n jsval \<Rightarrow> error + jsstring" where
  "part_v1 h key val =
     bindE (if isDate val then bindE (Date_toISOString val) (\<lambda>t. Inr (JStr t))
            else if isObject val then Inr (JSON_stringify h val)
            else Inr val) (\<lambda>val1.
     bindE (encode key) (\<lambda>ek.
     bindE (encode (ToString h val1)) (\<lambda>ev.
       Inr (ek @ js ''='' @ ev))))"

definition pushPart_v1 :: "'n host \<Rightarrow> jsstring \<Rightarrow> 'n jsval \<Rightarrow> jsstring list \<Rightarrow> error + jsstring list" where
  "pushPart_v1 h key val parts = bindE (part_v1 h key val) (\<lambda>p. Inr (parts @ [p]))"

definition eachKey_v1 :: "'n host \<Rightarrow> 'n jsval \<Rightarrow> jsstring \<Rightarrow> jsstring list \<Rightarrow> error + jsstring list" where
  "eachKey_v1 h params key parts =
     (let val = getProp params key in
      if val = JNull \<or> val = JUndefined then Inr parts
      else
        let (values, key1) =
              (if Array_isArray val then (arrayElements val, key @ js ''[]'')
               else ([val], key))
        in forEach (pushPart_v1 h key1) values parts)"

definition buildURL_v1 :: "'n host \<Rightarrow> jsstring \<Rightarrow> 'n jsval \<Rightarrow> error + jsstring" where
  "buildURL_v1 h url params =
     (if \<not> truthy params then Inr url
      else
        bindE (forEach (eachKey_v1 h params) (Object_keys params) [])
          (\<lambda>parts. Inr (appendParams url (join (js ''&'') parts))))"

section \<open>buildURL over a store of mutable objects\<close>

text \<open>
  The functions above compute the returned string from the value of \<open>params\<close>. To say
  what a call does to the objects themselves, the same code is modelled once more over
  a store: a value is a primitive or a reference, an object lives at an address, and
  every statement of the source that allocates or writes (\<open>const parts = []\<close>,
  \<open>values = [val]\<close>, \<open>parts.push(...)\<close>) is a step on the store. \<open>values = val\<close> is an
  alias of the array inside \<open>params\<close>, not a copy.
\<close>

datatype 'n hval = HUndefined | HNull | HBool bool | HNum "'n jsnumber" | HStr jsstring | HRef nat

datatype 'n hobj =
    OArr "'n hval option list"
  | ODate "int option"
  | OObj "(jsstring \<times> 'n hval) list"
  | OURLSearchParams "(jsstring \<times> jsstring) list"

record 'n store =
  objs :: "nat \<Rightarrow> 'n hobj option"
  next_addr :: nat

text \<open>A computation on the store that returns a value or throws.\<close>

type_synonym ('n, 'a) action = "'n store \<Rightarrow> (error + 'a) \<times> 'n store"

definition returnA :: "'a \<Rightarrow> ('n, 'a) action" where
  "returnA x s = (Inr x, s)"

definition liftE :: "error + 'a \<Rightarrow> ('n, 'a) action" where
  "liftE r s = (r, s)"

definition bindA :: "('n, 'a) action \<Rightarrow> ('a \<Rightarrow> ('n, 'b) action) \<Rightarrow> ('n, 'b) action" where
  "bindA m f s = (case m s of (Inl e, s1) \<Rightarrow> (Inl e, s1) | (Inr x, s1) \<Rightarrow> f x s1)"

definition alloc :: "'n hobj \<Rightarrow> 'n store \<Rightarrow> nat \<times> 'n store" where
  "alloc ob s =
     (next_addr s, s\<lparr>objs := (objs s)(next_addr s \<mapsto> ob), next_addr := Suc (next_addr s)\<rparr>)"

text \<open>\<open>arr.push(v)\<close> for the array at address \<open>a\<close>.\<close>

definition push :: "nat \<Rightarrow> 'n hval \<Rightarrow> 'n store \<Rightarrow> 'n store" where
  "push a v s =
     (case objs s a of
        Some (OArr es) \<Rightarrow> s\<lparr>objs := (objs s)(a \<mapsto> OArr (es @ [Some v]))\<rparr>
      | _ \<Rightarrow> s)"

text \<open>
  What the host does with a value that may be an object of the caller can run code of
  the caller: an accessor property behind \<open>params[key]\<close>, a \<open>toJSON\<close> method inside
  \<open>JSON.stringify\<close>, a \<open>toString\<close> or \<open>valueOf\<close> method inside \<open>encodeURIComponent\<close>, the
  traps of a proxy. Each operation of the host on such a value is therefore a parameter
  of \<open>buildURL\<close> over the store, and a computation on the store: it returns a value or
  throws, and it may write. (\<open>Array.isArray\<close> and \<open>typeof\<close> run no code of the caller; they
  are parameters like the others.) \<open>isDate_op\<close>, \<open>isPlainObject_op\<close>, \<open>isObject_op\<close> and
  \<open>isURLSearchParams_op\<close> are the tests of \<open>helpers/util.ts\<close>; \<open>toString_op\<close> is the
  conversion to a string, in \<open>params.toString()\<close> and in \<open>encodeURIComponent(val)\<close>;
  \<open>length_op\<close> and \<open>elem_op\<close> are the reads of \<open>forEach\<close>, where \<open>None\<close> is a hole;
  \<open>stringify_op\<close> is \<open>JSON.stringify\<close>. The operations on plain data, which only read,
  are \<open>plainOps\<close> below.
\<close>

record 'n ops =
  isURLSearchParams_op :: "'n hval \<Rightarrow> ('n, bool) action"
  toString_op :: "'n hval \<Rightarrow> ('n, jsstring) action"
  keys_op :: "'n hval \<Rightarrow> ('n, jsstring list) action"
  get_op :: "'n hval \<Rightarrow> jsstring \<Rightarrow> ('n, 'n hval) action"
  isArray_op :: "'n hval \<Rightarrow> ('n, bool) action"
  length_op :: "'n hval \<Rightarrow> ('n, nat) action"
  elem_op :: "'n hval \<Rightarrow> nat \<Rightarrow> ('n, 'n hval option) action"
  isDate_op :: "'n hval \<Rightarrow> ('n, bool) action"
  toISOString_op :: "'n hval \<Rightarrow> ('n, jsstring) action"
  isPlainObject_op :: "'n hval \<Rightarrow> ('n, bool) action"
  isObject_op :: "'n hval \<Rightarrow> ('n, bool) action"
  stringify_op :: "'n hval \<Rightarrow> ('n, 'n hval) action"

definition truthy_h :: "'n hval \<Rightarrow> bool" where
  "truthy_h v =
     (case v of
        HUndefined \<Rightarrow> False
      | HNull \<Rightarrow> False
      | HBool b \<Rightarrow> b
      | HNum n \<Rightarrow> n \<noteq> NaN \<and> n \<noteq> PosZero \<and> n \<noteq> NegZero
      | HStr t \<Rightarrow> t \<noteq> []
      | HRef a \<Rightarrow> True)"

text \<open>
  The part for one element (chapter 10): the conversions, then the template string.
  \<open>encode(key)\<close> is evaluated before \<open>encode(val)\<close>, whose \<open>encodeURIComponent\<close> first
  converts \<open>val\<close> to a string.
\<close>

definition part_h :: "'n ops \<Rightarrow> jsstring \<Rightarrow> 'n hval \<Rightarrow> ('n, jsstring) action" where
  "part_h ops key val =
     bindA (bindA (isDate_op ops val) (\<lambda>d.
              if d then bindA (toISOString_op ops val) (\<lambda>t. returnA (HStr t))
              else bindA (isPlainObject_op ops val) (\<lambda>p.
                     if p then stringify_op ops val else returnA val))) (\<lambda>val1.
     bindA (liftE (encode key)) (\<lambda>ek.
     bindA (toString_op ops val1) (\<lambda>t.
     bindA (liftE (encode t)) (\<lambda>ev.
       returnA (ek @ js ''='' @ ev)))))"

definition part_v1_h :: "'n ops \<Rightarrow> jsstring \<Rightarrow> 'n hval \<Rightarrow> ('n, jsstring) action" where
  "part_v1_h ops key val =
     bindA (bindA (isDate_op ops val) (\<lambda>d.
              if d then bindA (toISOString_op ops val) (\<lambda>t. returnA (HStr t))
              else bindA (isObject_op ops val) (\<lambda>p.
                     if p then stringify_op ops val else returnA val))) (\<lambda>val1.
     bindA (liftE (encode key)) (\<lambda>ek.
     bindA (toString_op ops val1) (\<lambda>t.
     bindA (liftE (encode t)) (\<lambda>ev.
       returnA (ek @ js ''='' @ ev)))))"

text \<open>
  The body of \<open>values.forEach\<close>: \<open>parts\<close> is the address of the array \<open>parts\<close>, and
  \<open>mkPart\<close> is \<open>part_h ops key\<close> or \<open>part_v1_h ops key\<close>.
\<close>

definition pushPart_h :: "('n hval \<Rightarrow> ('n, jsstring) action) \<Rightarrow> nat \<Rightarrow> 'n hval \<Rightarrow> ('n, unit) action" where
  "pushPart_h mkPart parts val =
     bindA (mkPart val) (\<lambda>p s. (Inr (), push parts (HStr p) s))"

text \<open>
  \<open>Array.prototype.forEach\<close>: the length is read once; then, index by index, the
  element is read as it is when its turn comes, and the callback runs if there is one
  (\<open>None\<close> is a hole).
\<close>

function forEachFrom ::
  "(nat \<Rightarrow> ('n, 'n hval option) action) \<Rightarrow> ('n hval \<Rightarrow> ('n, unit) action) \<Rightarrow> nat \<Rightarrow> nat \<Rightarrow>
   ('n, unit) action" where
  "forEachFrom elem f i len s =
     (if len \<le> i then (Inr (), s)
      else
        (case elem i s of
           (Inl e, s1) \<Rightarrow> (Inl e, s1)
         | (Inr None, s1) \<Rightarrow> forEachFrom elem f (Suc i) len s1
         | (Inr (Some v), s1) \<Rightarrow>
             (case f v s1 of
                (Inl e, s2) \<Rightarrow> (Inl e, s2)
              | (Inr u, s2) \<Rightarrow> forEachFrom elem f (Suc i) len s2)))"
  by pat_completeness auto
termination
  by (relation "measure (\<lambda>(elem, f, i, len, s). len - i)") auto

text \<open>\<open>values.forEach(f)\<close> where \<open>values\<close> is the caller's array \<open>val\<close>.\<close>

definition forEach_h :: "'n ops \<Rightarrow> ('n hval \<Rightarrow> ('n, unit) action) \<Rightarrow> 'n hval \<Rightarrow> ('n, unit) action" where
  "forEach_h ops f val = bindA (length_op ops val) (\<lambda>len. forEachFrom (elem_op ops val) f 0 len)"

text \<open>
  Reading index \<open>i\<close> of the array at address \<open>a\<close>, for an array \<open>buildURL\<close> made itself.
\<close>

definition ownElem :: "nat \<Rightarrow> nat \<Rightarrow> ('n, 'n hval option) action" where
  "ownElem a i s =
     (Inr (case objs s a of
             Some (OArr es) \<Rightarrow> if i < length es then es ! i else None
           | _ \<Rightarrow> None), s)"

text \<open>\<open>Object.keys(params).forEach\<close>: the array of keys is fresh and nothing else holds it.\<close>

fun forEachKey :: "(jsstring \<Rightarrow> ('n, unit) action) \<Rightarrow> jsstring list \<Rightarrow> ('n, unit) action" where
  "forEachKey f [] s = (Inr (), s)"
| "forEachKey f (k # ks) s =
     (case f k s of
        (Inl e, s1) \<Rightarrow> (Inl e, s1)
      | (Inr u, s1) \<Rightarrow> forEachKey f ks s1)"

text \<open>
  The body of \<open>Object.keys(params).forEach\<close>. \<open>mkPart\<close> is \<open>part_h ops\<close> or
  \<open>part_v1_h ops\<close>. For a value that is not an array, \<open>values = [val]\<close> allocates a
  one-element array, and \<open>forEach\<close> runs on it.
\<close>

definition eachKey_h ::
  "'n ops \<Rightarrow> (jsstring \<Rightarrow> 'n hval \<Rightarrow> ('n, jsstring) action) \<Rightarrow> 'n hval \<Rightarrow> nat \<Rightarrow> jsstring \<Rightarrow>
   ('n, unit) action" where
  "eachKey_h ops mkPart params parts key =
     bindA (get_op ops params key) (\<lambda>val.
       if val = HNull \<or> val = HUndefined then returnA ()
       else
         bindA (isArray_op ops val) (\<lambda>arr.
           if arr then forEach_h ops (pushPart_h (mkPart (key @ js ''[]'')) parts) val
           else
             (\<lambda>s. let (a, s1) = alloc (OArr [Some val]) s
                  in forEachFrom (ownElem a) (pushPart_h (mkPart key) parts) 0 1 s1)))"

text \<open>\<open>parts.join('&')\<close> reads the strings of the array at address \<open>parts\<close>.\<close>

definition partsOf :: "'n store \<Rightarrow> nat \<Rightarrow> jsstring list" where
  "partsOf s parts =
     (case objs s parts of
        Some (OArr es) \<Rightarrow> map (\<lambda>v. case v of HStr t \<Rightarrow> t | _ \<Rightarrow> []) (present es)
      | _ \<Rightarrow> [])"

text \<open>The default serialization: \<open>const parts = []\<close>, the loop over the keys, the join.\<close>

definition defaultSerialize_h ::
  "'n ops \<Rightarrow> (jsstring \<Rightarrow> 'n hval \<Rightarrow> ('n, jsstring) action) \<Rightarrow> 'n hval \<Rightarrow> ('n, jsstring) action" where
  "defaultSerialize_h ops mkPart params s =
     (let (parts, s1) = alloc (OArr []) s
      in bindA (keys_op ops params) (\<lambda>ks.
         bindA (forEachKey (eachKey_h ops mkPart params parts) ks) (\<lambda>u s2.
           (Inr (join (js ''&'') (partsOf s2 parts)), s2))) s1)"

text \<open>\<open>buildURL\<close> of chapter 10.\<close>

definition buildURL_h ::
  "'n ops \<Rightarrow> jsstring \<Rightarrow> 'n hval \<Rightarrow> ('n hval \<Rightarrow> ('n, jsstring) action) option \<Rightarrow> ('n, jsstring) action" where
  "buildURL_h ops url params paramsSerializer s =
     (if \<not> truthy_h params then (Inr url, s)
      else
        bindA (case paramsSerializer of
                 Some f \<Rightarrow> f params
               | None \<Rightarrow>
                   bindA (isURLSearchParams_op ops params) (\<lambda>u.
                     if u then toString_op ops params
                     else defaultSerialize_h ops (part_h ops) params))
          (\<lambda>serializedParams. returnA (appendParams url serializedParams)) s)"

text \<open>\<open>buildURL\<close> of chapter 4.\<close>

definition buildURL_v1_h :: "'n ops \<Rightarrow> jsstring \<Rightarrow> 'n hval \<Rightarrow> ('n, jsstring) action" where
  "buildURL_v1_h ops url params s =
     (if \<not> truthy_h params then (Inr url, s)
      else
        bindA (defaultSerialize_h ops (part_v1_h ops) params)
          (\<lambda>serializedParams. returnA (appendParams url serializedParams)) s)"

subsection \<open>The operations on plain data\<close>

text \<open>
  A store of plain data: the objects have no accessor properties, no \<open>toJSON\<close>,
  \<open>toString\<close> or \<open>valueOf\<close> of their own, and none is a proxy. Every operation is then a
  read of the store.
\<close>

definition deref :: "'n store \<Rightarrow> 'n hval \<Rightarrow> 'n hobj option" where
  "deref s v = (case v of HRef a \<Rightarrow> objs s a | _ \<Rightarrow> None)"

definition isDate_h :: "'n store \<Rightarrow> 'n hval \<Rightarrow> bool" where
  "isDate_h s v = (case deref s v of Some (ODate tv) \<Rightarrow> True | _ \<Rightarrow> False)"

definition isPlainObject_h :: "'n store \<Rightarrow> 'n hval \<Rightarrow> bool" where
  "isPlainObject_h s v = (case deref s v of Some (OObj kvs) \<Rightarrow> True | _ \<Rightarrow> False)"

definition isObject_h :: "'n store \<Rightarrow> 'n hval \<Rightarrow> bool" where
  "isObject_h s v = (case v of HRef a \<Rightarrow> True | _ \<Rightarrow> False)"

definition Array_isArray_h :: "'n store \<Rightarrow> 'n hval \<Rightarrow> bool" where
  "Array_isArray_h s v = (case deref s v of Some (OArr es) \<Rightarrow> True | _ \<Rightarrow> False)"

definition isURLSearchParams_h :: "'n store \<Rightarrow> 'n hval \<Rightarrow> bool" where
  "isURLSearchParams_h s v = (case deref s v of Some (OURLSearchParams ps) \<Rightarrow> True | _ \<Rightarrow> False)"

definition arrayLength_h :: "'n store \<Rightarrow> 'n hval \<Rightarrow> nat" where
  "arrayLength_h s v = (case deref s v of Some (OArr es) \<Rightarrow> length es | _ \<Rightarrow> 0)"

definition arrayElem_h :: "'n store \<Rightarrow> 'n hval \<Rightarrow> nat \<Rightarrow> 'n hval option" where
  "arrayElem_h s v i =
     (case deref s v of
        Some (OArr es) \<Rightarrow> if i < length es then es ! i else None
      | _ \<Rightarrow> None)"

definition ownEntries_h :: "'n store \<Rightarrow> 'n hval \<Rightarrow> (jsstring \<times> 'n hval) list" where
  "ownEntries_h s v =
     (case v of
        HStr t \<Rightarrow> zip (map decimal [0..<length t]) (map (\<lambda>c. HStr [c]) t)
      | HRef a \<Rightarrow>
          (case objs s a of
             Some (OObj kvs) \<Rightarrow> kvs
           | Some (OArr es) \<Rightarrow> indexed 0 es
           | _ \<Rightarrow> [])
      | _ \<Rightarrow> [])"

definition Object_keys_h :: "'n store \<Rightarrow> 'n hval \<Rightarrow> jsstring list" where
  "Object_keys_h s v = map fst (ownEntries_h s v)"

definition getProp_h :: "'n store \<Rightarrow> 'n hval \<Rightarrow> jsstring \<Rightarrow> 'n hval" where
  "getProp_h s v key = (case map_of (ownEntries_h s v) key of None \<Rightarrow> HUndefined | Some x \<Rightarrow> x)"

definition toISOString_h :: "'n store \<Rightarrow> 'n hval \<Rightarrow> error + jsstring" where
  "toISOString_h s v =
     (case deref s v of
        Some (ODate None) \<Rightarrow> Inl RangeError
      | Some (ODate (Some t)) \<Rightarrow> Inr (isoString t)
      | _ \<Rightarrow> Inl TypeError)"

text \<open>
  The value a store holds under a reference, read to the given depth: \<open>None\<close> when an
  object is missing or the depth is used up, which on a store with \<open>next_addr s\<close>
  objects and that depth means a cycle.
\<close>

fun treeOf :: "nat \<Rightarrow> 'n store \<Rightarrow> 'n hval \<Rightarrow> 'n jsval option" where
  "treeOf fuel s HUndefined = Some JUndefined"
| "treeOf fuel s HNull = Some JNull"
| "treeOf fuel s (HBool b) = Some (JBool b)"
| "treeOf fuel s (HNum n) = Some (JNum n)"
| "treeOf fuel s (HStr t) = Some (JStr t)"
| "treeOf 0 s (HRef a) = None"
| "treeOf (Suc fuel) s (HRef a) =
     (case objs s a of
        None \<Rightarrow> None
      | Some (OArr es) \<Rightarrow>
          map_option JArr
            (those (map (\<lambda>e. case e of
                               None \<Rightarrow> Some None
                             | Some v \<Rightarrow> map_option Some (treeOf fuel s v)) es))
      | Some (ODate tv) \<Rightarrow> Some (JDate tv)
      | Some (OObj kvs) \<Rightarrow>
          map_option (\<lambda>vs. JObj (zip (map fst kvs) vs))
            (those (map (\<lambda>kv. treeOf fuel s (snd kv)) kvs))
      | Some (OURLSearchParams ps) \<Rightarrow> Some (JURLSearchParams ps))"

text \<open>\<open>JSON.stringify\<close> on plain data; it raises TypeError on a cyclic structure.\<close>

definition JSON_stringify_h :: "'n host \<Rightarrow> 'n store \<Rightarrow> 'n hval \<Rightarrow> error + 'n hval" where
  "JSON_stringify_h h s v =
     (case treeOf (next_addr s) s v of
        None \<Rightarrow> Inl TypeError
      | Some t \<Rightarrow>
          Inr (case SerializeJSONProperty h t of None \<Rightarrow> HUndefined | Some x \<Rightarrow> HStr x))"

text \<open>
  \<open>ToString\<close> on plain data. \<open>Array.prototype.join\<close> keeps the arrays it is working on
  (\<open>stack\<close>) and prints the empty string for an array that is one of them, so a cyclic
  array has a string: \<open>a = [1]; a.push(a)\<close> prints \<open>1,\<close>. The depth bounds the nesting: on
  a store with \<open>next_addr s\<close> objects, when it is used up every object is on the stack,
  so an array met then is one of them and prints the empty string as well.
\<close>

definition otherString :: "'n host \<Rightarrow> 'n hobj \<Rightarrow> jsstring" where
  "otherString h ob =
     (case ob of
        OArr es \<Rightarrow> []
      | ODate tv \<Rightarrow> (case tv of None \<Rightarrow> js ''Invalid Date'' | Some t \<Rightarrow> Date_toString h t)
      | OObj kvs \<Rightarrow> js ''[object Object]''
      | OURLSearchParams ps \<Rightarrow> URLSearchParams_toString ps)"

fun toStringFrom :: "'n host \<Rightarrow> nat \<Rightarrow> nat list \<Rightarrow> 'n store \<Rightarrow> 'n hval \<Rightarrow> jsstring" where
  "toStringFrom h fuel stack s HUndefined = js ''undefined''"
| "toStringFrom h fuel stack s HNull = js ''null''"
| "toStringFrom h fuel stack s (HBool b) = (if b then js ''true'' else js ''false'')"
| "toStringFrom h fuel stack s (HNum n) = numberToString h n"
| "toStringFrom h fuel stack s (HStr t) = t"
| "toStringFrom h 0 stack s (HRef a) =
     (case objs s a of None \<Rightarrow> [] | Some ob \<Rightarrow> otherString h ob)"
| "toStringFrom h (Suc fuel) stack s (HRef a) =
     (case objs s a of
        None \<Rightarrow> []
      | Some (OArr es) \<Rightarrow>
          if a \<in> set stack then []
          else join (js '','')
                 (map (\<lambda>e. case e of
                             None \<Rightarrow> []
                           | Some v \<Rightarrow>
                               if v = HUndefined \<or> v = HNull then []
                               else toStringFrom h fuel (a # stack) s v) es)
      | Some ob \<Rightarrow> otherString h ob)"

definition ToString_h :: "'n host \<Rightarrow> 'n store \<Rightarrow> 'n hval \<Rightarrow> jsstring" where
  "ToString_h h s v = toStringFrom h (next_addr s) [] s v"

text \<open>An operation that reads the store and returns, or reads the store and may throw.\<close>

definition readA :: "('n store \<Rightarrow> 'a) \<Rightarrow> ('n, 'a) action" where
  "readA f s = (Inr (f s), s)"

definition readE :: "('n store \<Rightarrow> error + 'a) \<Rightarrow> ('n, 'a) action" where
  "readE f s = (f s, s)"

definition plainOps :: "'n host \<Rightarrow> 'n ops" where
  "plainOps h =
     \<lparr>isURLSearchParams_op = (\<lambda>v. readA (\<lambda>s. isURLSearchParams_h s v)),
      toString_op = (\<lambda>v. readA (\<lambda>s. ToString_h h s v)),
      keys_op = (\<lambda>v. readA (\<lambda>s. Object_keys_h s v)),
      get_op = (\<lambda>v key. readA (\<lambda>s. getProp_h s v key)),
      isArray_op = (\<lambda>v. readA (\<lambda>s. Array_isArray_h s v)),
      length_op = (\<lambda>v. readA (\<lambda>s. arrayLength_h s v)),
      elem_op = (\<lambda>v i. readA (\<lambda>s. arrayElem_h s v i)),
      isDate_op = (\<lambda>v. readA (\<lambda>s. isDate_h s v)),
      toISOString_op = (\<lambda>v. readE (\<lambda>s. toISOString_h s v)),
      isPlainObject_op = (\<lambda>v. readA (\<lambda>s. isPlainObject_h s v)),
      isObject_op = (\<lambda>v. readA (\<lambda>s. isObject_h s v)),
      stringify_op = (\<lambda>v. readE (\<lambda>s. JSON_stringify_h h s v))\<rparr>"

subsection \<open>What stays as it was\<close>

text \<open>
  Every object of \<open>s\<close> is in \<open>s'\<close> what it is in \<open>s\<close>; \<open>s'\<close> may hold new objects.
\<close>

definition unchanged :: "'n store \<Rightarrow> 'n store \<Rightarrow> bool" where
  "unchanged s s' = (next_addr s \<le> next_addr s' \<and> (\<forall>a<next_addr s. objs s' a = objs s a))"

text \<open>A computation that leaves the objects of \<open>s0\<close> as they are, whenever it runs.\<close>

definition framed :: "'n store \<Rightarrow> ('n, 'a) action \<Rightarrow> bool" where
  "framed s0 m = (\<forall>t. unchanged s0 t \<longrightarrow> unchanged s0 (snd (m t)))"

text \<open>The same of every operation of the host, on every argument.\<close>

definition opsFramed :: "'n store \<Rightarrow> 'n ops \<Rightarrow> bool" where
  "opsFramed s0 ops =
     ((\<forall>v. framed s0 (isURLSearchParams_op ops v)) \<and>
      (\<forall>v. framed s0 (toString_op ops v)) \<and>
      (\<forall>v. framed s0 (keys_op ops v)) \<and>
      (\<forall>v key. framed s0 (get_op ops v key)) \<and>
      (\<forall>v. framed s0 (isArray_op ops v)) \<and>
      (\<forall>v. framed s0 (length_op ops v)) \<and>
      (\<forall>v i. framed s0 (elem_op ops v i)) \<and>
      (\<forall>v. framed s0 (isDate_op ops v)) \<and>
      (\<forall>v. framed s0 (toISOString_op ops v)) \<and>
      (\<forall>v. framed s0 (isPlainObject_op ops v)) \<and>
      (\<forall>v. framed s0 (isObject_op ops v)) \<and>
      (\<forall>v. framed s0 (stringify_op ops v)))"

text \<open>No object lives at an address that has not been allocated.\<close>

definition wfStore :: "'n store \<Rightarrow> bool" where
  "wfStore s = (\<forall>a. next_addr s \<le> a \<longrightarrow> objs s a = None)"

subsection \<open>Caller code and stores for the examples\<close>

text \<open>
  A serializer that deletes every property of the object it is given and returns a
  fixed string, and one that only returns a fixed string.
\<close>

definition clearingSerializer :: "jsstring \<Rightarrow> 'n hval \<Rightarrow> ('n, jsstring) action" where
  "clearingSerializer r params s =
     (Inr r, (case params of HRef a \<Rightarrow> s\<lparr>objs := (objs s)(a \<mapsto> OObj [])\<rparr> | _ \<Rightarrow> s))"

definition fixedSerializer_h :: "jsstring \<Rightarrow> 'n hval \<Rightarrow> ('n, jsstring) action" where
  "fixedSerializer_h r params s = (Inr r, s)"

text \<open>
  A store for the examples: \<open>{foo: ['bar', 'baz'], when: new Date(1683603440151),
  o: {bar: 'baz'}, n: null}\<close> at address 0.
\<close>

definition exampleStore :: "int store" where
  "exampleStore =
     \<lparr>objs = [0 \<mapsto> OObj [(js ''foo'', HRef 1), (js ''when'', HRef 2), (js ''o'', HRef 3), (js ''n'', HNull)],
              1 \<mapsto> OArr [Some (HStr (js ''bar'')), Some (HStr (js ''baz''))],
              2 \<mapsto> ODate (Some 1683603440151),
              3 \<mapsto> OObj [(js ''bar'', HStr (js ''baz''))]],
      next_addr = 4\<rparr>"

section \<open>Auxiliary definitions for the statements\<close>

text \<open>The results of \<open>f\<close> on a list, in order, up to the first exception.\<close>

fun mapE :: "('a \<Rightarrow> error + 'b) \<Rightarrow> 'a list \<Rightarrow> error + 'b list" where
  "mapE f [] = Inr []"
| "mapE f (x # xs) = bindE (f x) (\<lambda>y. bindE (mapE f xs) (\<lambda>ys. Inr (y # ys)))"

text \<open>The parts one entry of \<open>params\<close> contributes (chapter 10 and chapter 4).\<close>

definition entryParts :: "'n host \<Rightarrow> jsstring \<times> 'n jsval \<Rightarrow> error + jsstring list" where
  "entryParts h kv =
     (if snd kv = JNull \<or> snd kv = JUndefined then Inr []
      else if Array_isArray (snd kv)
        then mapE (part h (fst kv @ js ''[]'')) (arrayElements (snd kv))
      else mapE (part h (fst kv)) [snd kv])"

definition entryParts_v1 :: "'n host \<Rightarrow> jsstring \<times> 'n jsval \<Rightarrow> error + jsstring list" where
  "entryParts_v1 h kv =
     (if snd kv = JNull \<or> snd kv = JUndefined then Inr []
      else if Array_isArray (snd kv)
        then mapE (part_v1 h (fst kv @ js ''[]'')) (arrayElements (snd kv))
      else mapE (part_v1 h (fst kv)) [snd kv])"

definition isScalar :: "'n jsval \<Rightarrow> bool" where
  "isScalar v = (case v of JBool b \<Rightarrow> True | JNum n \<Rightarrow> True | JStr s \<Rightarrow> True | _ \<Rightarrow> False)"

text \<open>A serializer that ignores \<open>params\<close> and returns a fixed string, and one that throws.\<close>

definition fixedSerializer :: "jsstring \<Rightarrow> 'n jsval \<Rightarrow> error + jsstring" where
  "fixedSerializer s params = Inr s"

definition throwingSerializer :: "'n jsval \<Rightarrow> error + jsstring" where
  "throwingSerializer params = Inl CustomSerializerFailure"

text \<open>
  An instance of the host parameters, for evaluation on concrete inputs: the finite
  nonzero numbers are integers, printed in decimal (as JavaScript prints the integers
  of magnitude up to \<open>2^53\<close>), and the local time zone is UTC.
\<close>

definition dayNames :: "jsstring list" where
  "dayNames = [js ''Sun'', js ''Mon'', js ''Tue'', js ''Wed'', js ''Thu'', js ''Fri'', js ''Sat'']"

definition monthNames :: "jsstring list" where
  "monthNames = [js ''Jan'', js ''Feb'', js ''Mar'', js ''Apr'', js ''May'', js ''Jun'',
                 js ''Jul'', js ''Aug'', js ''Sep'', js ''Oct'', js ''Nov'', js ''Dec'']"

definition utcDateString :: "int \<Rightarrow> jsstring" where
  "utcDateString t =
     (let day = t div 86400000;
          ms = t mod 86400000;
          (y, m, d) = civilFromDays day
      in dayNames ! nat ((day + 4) mod 7) @ js '' '' @ monthNames ! nat (m - 1) @ js '' ''
         @ padStart 2 (decimal (nat d)) @ js '' ''
         @ (if y < 0 then js ''-'' else []) @ padStart 4 (decimal (nat \<bar>y\<bar>)) @ js '' ''
         @ padStart 2 (decimal (nat (ms div 3600000))) @ js '':''
         @ padStart 2 (decimal (nat (ms div 60000 mod 60))) @ js '':''
         @ padStart 2 (decimal (nat (ms div 1000 mod 60)))
         @ js '' GMT+0000 (Coordinated Universal Time)'')"

definition integerToString :: "int \<Rightarrow> jsstring" where
  "integerToString n = (if n < 0 then js ''-'' else []) @ decimal (nat \<bar>n\<bar>)"

definition utcHost :: "int host" where
  "utcHost = \<lparr>Number_toString = integerToString, Date_toString = utcDateString\<rparr>"

text \<open>
  \<open>p = {o: {toJSON() { p.x = 1; return 1 }}}\<close>: \<open>p\<close> at address 0 and its member at
  address 1 (the store holds the data; the method is the caller's code).
  \<open>JSON.stringify\<close> of the member runs its \<open>toJSON\<close>, which adds the key \<open>x\<close> to \<open>p\<close> and
  returns 1, so the text is \<open>1\<close>. \<open>toJSONOps\<close> is \<open>plainOps\<close> with that behaviour of
  \<open>JSON.stringify\<close> on the member.
\<close>

definition toJSONStore :: "int store" where
  "toJSONStore = \<lparr>objs = [0 \<mapsto> OObj [(js ''o'', HRef 1)], 1 \<mapsto> OObj []], next_addr = 2\<rparr>"

definition setX :: "int store \<Rightarrow> int store" where
  "setX s =
     (case objs s 0 of
        Some (OObj kvs) \<Rightarrow> s\<lparr>objs := (objs s)(0 \<mapsto> OObj (kvs @ [(js ''x'', HNum (Finite 1))]))\<rparr>
      | _ \<Rightarrow> s)"

definition toJSONOps :: "int ops" where
  "toJSONOps =
     (plainOps utcHost)
       \<lparr>stringify_op :=
          (\<lambda>v s. if v = HRef 1 then (Inr (HStr (js ''1'')), setX s)
                 else stringify_op (plainOps utcHost) v s)\<rparr>"

section \<open>Auxiliary definitions for the replacement passes\<close>

text \<open>
  The seven \<open>.replace\<close> calls of \<open>encode\<close>, in source order: pattern, ignore-case flag
  and replacement string.
\<close>

definition passes :: "(jsstring \<times> bool \<times> jsstring) list" where
  "passes =
     [(js ''%40'', False, js ''@''), (js ''%3A'', True, js '':''), (js ''%24'', False, js ''$''),
      (js ''%2C'', True, js '',''), (js ''%20'', False, js ''+''), (js ''%5B'', True, js ''[''),
      (js ''%5D'', True, js '']'')]"

definition applyPass :: "jsstring \<times> bool \<times> jsstring \<Rightarrow> jsstring \<Rightarrow> jsstring" where
  "applyPass p s = replace_g (fst p) (fst (snd p)) (snd (snd p)) s"

text \<open>
  One left-to-right scan that replaces \<open>%ab\<close> by \<open>q\<close> wherever \<open>m a b\<close> holds: what a pass
  with a three-character pattern starting with \<open>%\<close> and a one-character replacement
  computes.
\<close>

fun rep1 :: "(16 word \<Rightarrow> 16 word \<Rightarrow> bool) \<Rightarrow> 16 word \<Rightarrow> jsstring \<Rightarrow> jsstring" where
  "rep1 m q (c # a # b # r) =
     (if c = 0x25 \<and> m a b then q # rep1 m q r else c # rep1 m q (a # b # r))"
| "rep1 m q s = s"

definition eqc :: "bool \<Rightarrow> 16 word \<Rightarrow> 16 word \<Rightarrow> bool" where
  "eqc ignoreCase x p = (if ignoreCase then canon x = canon p else x = p)"

definition passMatcher :: "jsstring \<times> bool \<times> jsstring \<Rightarrow> 16 word \<Rightarrow> 16 word \<Rightarrow> bool" where
  "passMatcher p a b = (eqc (fst (snd p)) a (fst p ! 1) \<and> eqc (fst (snd p)) b (fst p ! 2))"

definition passSub :: "jsstring \<times> bool \<times> jsstring \<Rightarrow> 16 word" where
  "passSub p = hd (snd (snd p))"

definition hexish :: "16 word \<Rightarrow> bool" where
  "hexish x = (x \<in> set (js ''0123456789ABCDEFabcdef''))"


section \<open>Evaluation rules\<close>

declare replace_g.simps [simp del]

lemma replace_g_Nil: "pat \<noteq> [] \<Longrightarrow> replace_g pat ic rep [] = []"
  by (simp add: replace_g.simps)

lemma replace_g_match:
  "pat \<noteq> [] \<Longrightarrow> matchesAt pat ic (c # cs) \<Longrightarrow>
   replace_g pat ic rep (c # cs) = rep @ replace_g pat ic rep (drop (length pat) (c # cs))"
  by (subst replace_g.simps) simp

lemma replace_g_nomatch:
  "pat \<noteq> [] \<Longrightarrow> \<not> matchesAt pat ic (c # cs) \<Longrightarrow>
   replace_g pat ic rep (c # cs) = c # replace_g pat ic rep cs"
  by (subst replace_g.simps) simp

lemmas encode_eval =
  encode_def js_def uriUnescaped_def isLeadSurrogate_def isTrailSurrogate_def
  pairCodePoint_def escapeCodePoint_def utf8_def percentOctet_def hexDigit_def bindE_def
  replace_g_Nil replace_g_match replace_g_nomatch matchesAt_def canon_def

section \<open>The error monad, indexOf and the loops\<close>

lemma bindE_Inl [simp]: "bindE (Inl e) f = Inl e"
  by (simp add: bindE_def)

lemma bindE_Inr [simp]: "bindE (Inr x) f = f x"
  by (simp add: bindE_def)

lemma bindE_assoc: "bindE (bindE m f) g = bindE m (\<lambda>x. bindE (f x) g)"
  by (cases m) simp_all

lemma bindE_Inr_right [simp]: "bindE m Inr = m"
  by (cases m) simp_all

lemma bindE_eq_Inr_iff: "bindE m f = Inr y \<longleftrightarrow> (\<exists>x. m = Inr x \<and> f x = Inr y)"
  by (cases m) simp_all

lemma bindE_cong: "m = m' \<Longrightarrow> (\<And>x. m' = Inr x \<Longrightarrow> f x = g x) \<Longrightarrow> bindE m f = bindE m' g"
  by (cases m') simp_all

lemma indexOf_ge: "- 1 \<le> indexOf s c"
  by (induction s) (auto simp: Let_def)

lemma indexOf_notin: "indexOf s c = - 1 \<longleftrightarrow> c \<notin> set s"
proof (induction s)
  case Nil
  show ?case by simp
next
  case (Cons x xs)
  have "- 1 \<le> indexOf xs c" by (rule indexOf_ge)
  then show ?case using Cons by (auto simp: Let_def)
qed

lemma slice0_indexOf: "c \<in> set s \<Longrightarrow> slice0 s (indexOf s c) = takeWhile (\<lambda>x. x \<noteq> c) s"
proof (induction s)
  case Nil
  then show ?case by simp
next
  case (Cons x xs)
  show ?case
  proof (cases "x = c")
    case True
    then show ?thesis by (simp add: slice0_def)
  next
    case False
    with Cons.prems have mem: "c \<in> set xs" by simp
    then have ne: "indexOf xs c \<noteq> - 1" by (simp add: indexOf_notin)
    moreover have "- 1 \<le> indexOf xs c" by (rule indexOf_ge)
    ultimately have "nat (indexOf xs c + 1) = Suc (nat (indexOf xs c))" by linarith
    moreover have "take (nat (indexOf xs c)) xs = takeWhile (\<lambda>x. x \<noteq> c) xs"
      using Cons.IH [OF mem] by (simp add: slice0_def)
    ultimately show ?thesis using False ne
      by (simp add: slice0_def Let_def)
  qed
qed

lemma appendParams_Nil: "appendParams url [] = url"
  by (simp add: appendParams_def)

lemma appendParams_nonempty:
  "sp \<noteq> [] \<Longrightarrow> appendParams url sp =
     takeWhile (\<lambda>c. c \<noteq> 0x23) url
     @ (if 0x3F \<in> set (takeWhile (\<lambda>c. c \<noteq> 0x23) url) then js ''&'' else js ''?'') @ sp"
proof -
  assume ne: "sp \<noteq> []"
  let ?u = "takeWhile (\<lambda>c. c \<noteq> (0x23 :: 16 word)) url"
  have u: "(if indexOf url 0x23 \<noteq> - 1 then slice0 url (indexOf url 0x23) else url) = ?u"
  proof (cases "indexOf url 0x23 = - 1")
    case True
    then have "0x23 \<notin> set url" by (simp add: indexOf_notin)
    then have "\<forall>x\<in>set url. x \<noteq> 0x23" by blast
    then have "?u = url"
      by (rule takeWhile_eq_all_conv [THEN iffD2])
    then show ?thesis using True by (simp del: takeWhile_eq_all_conv)
  next
    case False
    then show ?thesis by (simp add: slice0_indexOf indexOf_notin)
  qed
  show ?thesis
    using ne unfolding appendParams_def Let_def u
    by (simp add: indexOf_notin)
qed



lemma mapE_map: "mapE f (map g xs) = mapE (\<lambda>x. f (g x)) xs"
  by (induction xs) simp_all

lemma mapE_cong: "(\<And>x. x \<in> set xs \<Longrightarrow> f x = g x) \<Longrightarrow> mapE f xs = mapE g xs"
  by (induction xs) simp_all

lemma mapE_Inr_length: "mapE f xs = Inr ys \<Longrightarrow> length ys = length xs"
  by (induction xs arbitrary: ys) (auto simp: bindE_eq_Inr_iff)

lemma mapE_Inr_nth: "mapE f xs = Inr ys \<Longrightarrow> i < length xs \<Longrightarrow> f (xs ! i) = Inr (ys ! i)"
proof (induction xs arbitrary: ys i)
  case Nil
  then show ?case by simp
next
  case (Cons x xs)
  from Cons.prems(1) obtain y ys' where y: "f x = Inr y" and r: "mapE f xs = Inr ys'" and e: "ys = y # ys'"
    by (auto simp: bindE_eq_Inr_iff)
  show ?case
  proof (cases i)
    case 0
    then show ?thesis using y e by simp
  next
    case (Suc j)
    then show ?thesis using Cons.IH [OF r, of j] Cons.prems(2) e by simp
  qed
qed

lemma mapE_singletons:
  "mapE (\<lambda>x. bindE (f x) (\<lambda>p. Inr [p])) xs = bindE (mapE f xs) (\<lambda>ps. Inr (map (\<lambda>p. [p]) ps))"
  by (induction xs) (simp_all add: bindE_assoc)

lemma forEach_pushPart:
  "forEach (pushPart h key) vs parts = bindE (mapE (part h key) vs) (\<lambda>ps. Inr (parts @ ps))"
  by (induction vs arbitrary: parts) (simp_all add: pushPart_def bindE_assoc)

lemma forEach_pushPart_v1:
  "forEach (pushPart_v1 h key) vs parts = bindE (mapE (part_v1 h key) vs) (\<lambda>ps. Inr (parts @ ps))"
  by (induction vs arbitrary: parts) (simp_all add: pushPart_v1_def bindE_assoc)

lemma eachKey_entryParts:
  "eachKey h params key parts =
     bindE (entryParts h (key, getProp params key)) (\<lambda>ps. Inr (parts @ ps))"
  by (simp add: eachKey_def entryParts_def Let_def forEach_pushPart)

lemma eachKey_v1_entryParts:
  "eachKey_v1 h params key parts =
     bindE (entryParts_v1 h (key, getProp params key)) (\<lambda>ps. Inr (parts @ ps))"
  by (simp add: eachKey_v1_def entryParts_v1_def Let_def forEach_pushPart_v1)

lemma forEach_entryParts:
  assumes "\<And>key parts. key \<in> set ks \<Longrightarrow> f key parts = bindE (g key) (\<lambda>ps. Inr (parts @ ps))"
  shows "forEach f ks parts = bindE (mapE g ks) (\<lambda>pss. Inr (parts @ concat pss))"
  using assms by (induction ks arbitrary: parts) (simp_all add: bindE_assoc)

lemma getProp_distinct:
  "distinct (map fst kvs) \<Longrightarrow> (k, v) \<in> set kvs \<Longrightarrow> getProp (JObj kvs) k = v"
  by (simp add: getProp_def)

lemma forEach_eachKey_JObj:
  assumes "distinct (map fst kvs)"
  shows "forEach (eachKey h (JObj kvs)) (Object_keys (JObj kvs)) parts =
           bindE (mapE (entryParts h) kvs) (\<lambda>pss. Inr (parts @ concat pss))"
proof -
  have "mapE (\<lambda>key. entryParts h (key, getProp (JObj kvs) key)) (map fst kvs) = mapE (entryParts h) kvs"
    unfolding mapE_map
    by (rule mapE_cong) (use assms in \<open>auto simp: getProp_distinct\<close>)
  then show ?thesis
    by (simp add: Object_keys_def forEach_entryParts [where g = "\<lambda>key. entryParts h (key, getProp (JObj kvs) key)"]
        eachKey_entryParts)
qed

lemma forEach_eachKey_v1_JObj:
  assumes "distinct (map fst kvs)"
  shows "forEach (eachKey_v1 h (JObj kvs)) (Object_keys (JObj kvs)) parts =
           bindE (mapE (entryParts_v1 h) kvs) (\<lambda>pss. Inr (parts @ concat pss))"
proof -
  have "mapE (\<lambda>key. entryParts_v1 h (key, getProp (JObj kvs) key)) (map fst kvs) = mapE (entryParts_v1 h) kvs"
    unfolding mapE_map
    by (rule mapE_cong) (use assms in \<open>auto simp: getProp_distinct\<close>)
  then show ?thesis
    by (simp add: Object_keys_def forEach_entryParts [where g = "\<lambda>key. entryParts_v1 h (key, getProp (JObj kvs) key)"]
        eachKey_v1_entryParts)
qed

lemma buildURL_JObj:
  assumes "distinct (map fst kvs)"
  shows "buildURL h url (JObj kvs) None =
           bindE (mapE (entryParts h) kvs)
             (\<lambda>pss. Inr (appendParams url (join (js ''&'') (concat pss))))"
  by (simp add: buildURL_def serializeParams_def truthy_def isURLSearchParams_def
      defaultSerialize_def forEach_eachKey_JObj [OF assms] bindE_assoc)

lemma buildURL_v1_JObj:
  assumes "distinct (map fst kvs)"
  shows "buildURL_v1 h url (JObj kvs) =
           bindE (mapE (entryParts_v1 h) kvs)
             (\<lambda>pss. Inr (appendParams url (join (js ''&'') (concat pss))))"
  by (simp add: buildURL_v1_def truthy_def forEach_eachKey_v1_JObj [OF assms] bindE_assoc)

lemmas buildURL_eval =
  buildURL_def serializeParams_def buildURL_v1_def truthy_def isURLSearchParams_def defaultSerialize_def Object_keys_def
  eachKey_def eachKey_v1_def getProp_def Array_isArray_def arrayElements_def pushPart_def pushPart_v1_def
  part_def part_v1_def isDate_def isObject_def isPlainObject_def JSON_stringify_def QuoteJSONString_def
  appendParams_def slice0_def numberToString_def isFiniteNumber_def
  fixedSerializer_def throwingSerializer_def encode_eval

lemma join_nonempty: "xs \<noteq> [] \<Longrightarrow> hd xs \<noteq> [] \<Longrightarrow> join sep xs \<noteq> []"
  by (cases "(sep, xs)" rule: join.cases) simp_all

lemma entryParts_other:
  "\<not> isDate v \<Longrightarrow> \<not> isPlainObject v \<Longrightarrow> \<not> Array_isArray v \<Longrightarrow> v \<noteq> JNull \<Longrightarrow> v \<noteq> JUndefined \<Longrightarrow>
   entryParts h (k, v) =
     bindE (bindE (encode k) (\<lambda>ek. bindE (encode (ToString h v)) (\<lambda>ev. Inr (ek @ js ''='' @ ev))))
       (\<lambda>p. Inr [p])"
  by (simp add: entryParts_def part_def bindE_assoc)

lemma isScalar_cases:
  "isScalar v \<Longrightarrow> \<not> isDate v \<and> \<not> isPlainObject v \<and> \<not> isObject v \<and> \<not> Array_isArray v \<and> v \<noteq> JNull \<and> v \<noteq> JUndefined"
  by (cases v) (simp_all add: isScalar_def isDate_def isPlainObject_def isObject_def Array_isArray_def)

lemma mapE_filter_concat:
  "(\<And>x. x \<in> set xs \<Longrightarrow> \<not> P x \<Longrightarrow> g x = Inr []) \<Longrightarrow>
   bindE (mapE g xs) (\<lambda>pss. F (concat pss)) = bindE (mapE g (filter P xs)) (\<lambda>pss. F (concat pss))"
proof (induction xs arbitrary: F)
  case Nil
  show ?case by simp
next
  case (Cons x xs)
  have ih: "bindE (mapE g xs) (\<lambda>pss. G (concat pss)) = bindE (mapE g (filter P xs)) (\<lambda>pss. G (concat pss))"
    for G :: "'b list \<Rightarrow> error + 'c"
    using Cons.IH [of G] Cons.prems by simp
  show ?case
  proof (cases "P x")
    case True
    have "bindE (mapE g (x # xs)) (\<lambda>pss. F (concat pss)) =
          bindE (g x) (\<lambda>y. bindE (mapE g xs) (\<lambda>pss. F (y @ concat pss)))"
      by (simp add: bindE_assoc)
    also have "\<dots> = bindE (g x) (\<lambda>y. bindE (mapE g (filter P xs)) (\<lambda>pss. F (y @ concat pss)))"
      by (rule bindE_cong [OF refl]) (rule ih [of "\<lambda>c. F (_ @ c)"])
    also have "\<dots> = bindE (mapE g (filter P (x # xs))) (\<lambda>pss. F (concat pss))"
      using True by (simp add: bindE_assoc)
    finally show ?thesis .
  next
    case False
    then have "g x = Inr []" using Cons.prems by simp
    then show ?thesis using False ih [of F] by (simp add: bindE_assoc)
  qed
qed

lemma entryParts_null:
  "snd kv = JNull \<or> snd kv = JUndefined \<Longrightarrow> entryParts h kv = Inr [] \<and> entryParts_v1 h kv = Inr []"
  by (auto simp: entryParts_def entryParts_v1_def)

lemma forEach_unchanged:
  "(\<And>x st. x \<in> set xs \<Longrightarrow> f x st = Inr st) \<Longrightarrow> forEach f xs st = Inr st"
  by (induction xs arbitrary: st) simp_all

lemma getProp_listed:
  "key \<in> set (Object_keys params) \<Longrightarrow> (key, getProp params key) \<in> set (ownEntries params)"
proof -
  assume "key \<in> set (Object_keys params)"
  then have "key \<in> fst ` set (ownEntries params)" by (simp add: Object_keys_def)
  then obtain v where "map_of (ownEntries params) key = Some v"
    by (metis domD dom_map_of_conv_image_fst)
  then show ?thesis by (simp add: getProp_def map_of_SomeD)
qed

lemma entryParts_single:
  "v \<noteq> JNull \<Longrightarrow> v \<noteq> JUndefined \<Longrightarrow> \<not> Array_isArray v \<Longrightarrow>
   entryParts h (k, v) = bindE (part h k v) (\<lambda>p. Inr [p]) \<and>
   entryParts_v1 h (k, v) = bindE (part_v1 h k v) (\<lambda>p. Inr [p])"
  by (simp add: entryParts_def entryParts_v1_def)

lemma buildURL_single:
  "v \<noteq> JNull \<Longrightarrow> v \<noteq> JUndefined \<Longrightarrow> \<not> Array_isArray v \<Longrightarrow>
   buildURL h url (JObj [(k, v)]) None = bindE (part h k v) (\<lambda>p. Inr (appendParams url p))"
  by (simp add: buildURL_JObj entryParts_single bindE_assoc)

lemma buildURL_v1_single:
  "v \<noteq> JNull \<Longrightarrow> v \<noteq> JUndefined \<Longrightarrow> \<not> Array_isArray v \<Longrightarrow>
   buildURL_v1 h url (JObj [(k, v)]) = bindE (part_v1 h k v) (\<lambda>p. Inr (appendParams url p))"
  by (simp add: buildURL_v1_JObj entryParts_single bindE_assoc)

lemma isoString_example: "isoString 1683603440151 = js ''2023-05-09T03:37:20.151Z''"
  by code_simp

section \<open>The replacement passes commute\<close>

lemma encode_fold: "encode val = bindE (encodeURIComponent val) (\<lambda>s0. Inr (fold applyPass passes s0))"
  by (simp add: encode_def passes_def applyPass_def Let_def)

lemma canon_percent: "canon c = 0x25 \<longleftrightarrow> c = 0x25"
proof (cases "0x61 \<le> unat c \<and> unat c \<le> 0x7A")
  case True
  have "c - 0x20 \<noteq> 0x25"
  proof
    assume "c - 0x20 = 0x25"
    then have "c = 0x45" by (simp add: diff_eq_eq)
    then show False using True by simp
  qed
  moreover have "c \<noteq> 0x25" using True by auto
  ultimately show ?thesis using True by (simp add: canon_def)
next
  case False
  then show ?thesis by (auto simp: canon_def)
qed

lemma replace_g_short:
  "length s < length pat \<Longrightarrow> replace_g pat ic rep s = s"
proof (induction s)
  case Nil
  then show ?case by (simp add: replace_g_Nil)
next
  case (Cons c cs)
  then have "\<not> matchesAt pat ic (c # cs)" by (simp add: matchesAt_def)
  moreover have "pat \<noteq> []" using Cons.prems by auto
  ultimately show ?case using Cons by (simp add: replace_g_nomatch)
qed

lemma replace_g_rep1:
  "replace_g [0x25, p1, p2] ic [q] s = rep1 (\<lambda>a b. eqc ic a p1 \<and> eqc ic b p2) q s"
proof (induction "\<lambda>a b. eqc ic a p1 \<and> eqc ic b p2" q s rule: rep1.induct)
  case (1 q c a b r)
  have m: "matchesAt [0x25, p1, p2] ic (c # a # b # r) \<longleftrightarrow> c = 0x25 \<and> eqc ic a p1 \<and> eqc ic b p2"
    using canon_percent [of c] by (auto simp: matchesAt_def eqc_def canon_def)
  show ?case
  proof (cases "c = 0x25 \<and> eqc ic a p1 \<and> eqc ic b p2")
    case True
    then show ?thesis using 1 m by (simp add: replace_g_match)
  next
    case False
    then have "\<not> matchesAt [0x25, p1, p2] ic (c # a # b # r)" using m by simp
    then have "replace_g [0x25, p1, p2] ic [q] (c # a # b # r)
        = c # replace_g [0x25, p1, p2] ic [q] (a # b # r)"
      by (simp add: replace_g_nomatch)
    also have "\<dots> = c # rep1 (\<lambda>a b. eqc ic a p1 \<and> eqc ic b p2) q (a # b # r)"
      using 1(2) [OF False] by (simp only:)
    also have "\<dots> = rep1 (\<lambda>a b. eqc ic a p1 \<and> eqc ic b p2) q (c # a # b # r)"
      using False by auto
    finally show ?thesis .
  qed
qed (simp_all add: replace_g_short)


lemma rep1_skip: "c \<noteq> 0x25 \<Longrightarrow> rep1 m q (c # t) = c # rep1 m q t"
  by (cases "(m, q, c # t)" rule: rep1.cases) auto

lemma rep1_percent_short: "length t < 2 \<Longrightarrow> rep1 m q (c # t) = c # t"
  by (cases "(m, q, c # t)" rule: rep1.cases) auto

lemma rep1_nomatch: "\<not> m a b \<Longrightarrow> rep1 m q (c # a # b # r) = c # rep1 m q (a # b # r)"
  by simp

lemma rep1_match: "m a b \<Longrightarrow> rep1 m q (0x25 # a # b # r) = q # rep1 m q r"
  by simp

lemma not_hexish_percent: "\<not> hexish 0x25"
  by (simp add: hexish_def js_def)

text \<open>The head of a scanned string: unchanged, or the replacement where a match started.\<close>

lemma rep1_head:
  "rep1 m q (a # t) = a # rep1 m q t \<or> (a = 0x25 \<and> (\<exists>u. rep1 m q (a # t) = q # u))"
  by (cases "(m, q, a # t)" rule: rep1.cases) auto

lemma rep1_keeps_nomatch:
  assumes m1: "\<And>x y. m1 x y \<Longrightarrow> hexish x \<and> hexish y"
    and q2: "\<not> hexish q2"
    and nm: "\<not> m1 a b"
  shows "rep1 m1 q1 (c # rep1 m2 q2 (a # b # r)) = c # rep1 m1 q1 (rep1 m2 q2 (a # b # r))"
proof -
  have np: "\<And>y. \<not> m1 0x25 y" "\<And>x. \<not> m1 x 0x25" "\<And>y. \<not> m1 q2 y" "\<And>x. \<not> m1 x q2"
    using m1 q2 not_hexish_percent by blast+
  consider (A) u where "rep1 m2 q2 (a # b # r) = q2 # u" "a = 0x25"
    | (B) "rep1 m2 q2 (a # b # r) = a # rep1 m2 q2 (b # r)"
    using rep1_head [of m2 q2 a "b # r"] by blast
  then show ?thesis
  proof cases
    case A
    show ?thesis
    proof (cases u)
      case Nil
      then show ?thesis using A by (simp add: rep1_percent_short)
    next
      case (Cons x u')
      then show ?thesis using A np by simp
    qed
  next
    case B
    consider (B1) u where "rep1 m2 q2 (b # r) = q2 # u" "b = 0x25"
      | (B2) "rep1 m2 q2 (b # r) = b # rep1 m2 q2 r"
      using rep1_head [of m2 q2 b r] by blast
    then show ?thesis
    proof cases
      case B1
      then show ?thesis using B np by simp
    next
      case B2
      then show ?thesis using B nm by simp
    qed
  qed
qed

lemma rep1_commute:
  assumes m1: "\<And>x y. m1 x y \<Longrightarrow> hexish x \<and> hexish y"
    and m2: "\<And>x y. m2 x y \<Longrightarrow> hexish x \<and> hexish y"
    and q1: "\<not> hexish q1" "q1 \<noteq> 0x25"
    and q2: "\<not> hexish q2" "q2 \<noteq> 0x25"
    and disj: "\<And>x y. \<not> (m1 x y \<and> m2 x y)"
  shows "rep1 m1 q1 (rep1 m2 q2 s) = rep1 m2 q2 (rep1 m1 q1 s)"
proof (induction s rule: length_induct)
  case (1 s)
  have ih: "\<And>t. length t < length s \<Longrightarrow> rep1 m1 q1 (rep1 m2 q2 t) = rep1 m2 q2 (rep1 m1 q1 t)"
    using 1 by blast
  have hp: "\<And>x y. m1 x y \<Longrightarrow> x \<noteq> 0x25 \<and> y \<noteq> 0x25" "\<And>x y. m2 x y \<Longrightarrow> x \<noteq> 0x25 \<and> y \<noteq> 0x25"
    using m1 m2 not_hexish_percent by blast+
  show ?case
  proof (cases s)
    case Nil
    then show ?thesis by simp
  next
    case (Cons c t)
    show ?thesis
    proof (cases "c = 0x25")
      case False
      then show ?thesis using Cons ih [of t] by (simp add: rep1_skip)
    next
      case True
      show ?thesis
      proof (cases "length t < 2")
        case True
        then show ?thesis using Cons by (simp add: rep1_percent_short)
      next
        case False
        then obtain a b r where t: "t = a # b # r"
          by (cases t; cases "tl t") auto
        consider (M1) "m1 a b" | (M2) "m2 a b" | (N) "\<not> m1 a b" "\<not> m2 a b" by blast
        then show ?thesis
        proof cases
          case M1
          then have n2: "\<not> m2 a b" using disj by blast
          have "rep1 m1 q1 (rep1 m2 q2 s) = rep1 m1 q1 (c # a # b # rep1 m2 q2 r)"
            using Cons t n2 hp(1) [OF M1] by (simp add: rep1_skip)
          also have "\<dots> = q1 # rep1 m1 q1 (rep1 m2 q2 r)"
            using M1 \<open>c = 0x25\<close> by simp
          also have "\<dots> = q1 # rep1 m2 q2 (rep1 m1 q1 r)"
            using ih [of r] Cons t by simp
          also have "\<dots> = rep1 m2 q2 (rep1 m1 q1 s)"
            using Cons t M1 \<open>c = 0x25\<close> q1 by (simp add: rep1_skip)
          finally show ?thesis .
        next
          case M2
          then have n1: "\<not> m1 a b" using disj by blast
          have "rep1 m2 q2 (rep1 m1 q1 s) = rep1 m2 q2 (c # a # b # rep1 m1 q1 r)"
            using Cons t n1 hp(2) [OF M2] by (simp add: rep1_skip)
          also have "\<dots> = q2 # rep1 m2 q2 (rep1 m1 q1 r)"
            using M2 \<open>c = 0x25\<close> by simp
          also have "\<dots> = q2 # rep1 m1 q1 (rep1 m2 q2 r)"
            using ih [of r] Cons t by simp
          also have "\<dots> = rep1 m1 q1 (rep1 m2 q2 s)"
            using Cons t M2 \<open>c = 0x25\<close> q2 by (simp add: rep1_skip)
          finally show ?thesis by simp
        next
          case N
          have "rep1 m1 q1 (rep1 m2 q2 s) = rep1 m1 q1 (c # rep1 m2 q2 (a # b # r))"
            using Cons t N by simp
          also have "\<dots> = c # rep1 m1 q1 (rep1 m2 q2 (a # b # r))"
            using m1 q2(1) N(1) by (rule rep1_keeps_nomatch)
          also have "\<dots> = c # rep1 m2 q2 (rep1 m1 q1 (a # b # r))"
            using ih [of "a # b # r"] Cons t by simp
          also have "\<dots> = rep1 m2 q2 (c # rep1 m1 q1 (a # b # r))"
            using m2 q1(1) N(2) by (rule rep1_keeps_nomatch [symmetric])
          also have "\<dots> = rep1 m2 q2 (rep1 m1 q1 s)"
            using Cons t N by simp
          finally show ?thesis .
        qed
      qed
    qed
  qed
qed


lemma canon_eq:
  assumes "\<not> (0x61 \<le> unat p \<and> unat p \<le> 0x7A)" and "canon a = canon p"
  shows "a = p \<or> (a = p + 0x20 \<and> 0x61 \<le> unat a \<and> unat a \<le> 0x7A)"
proof (cases "0x61 \<le> unat a \<and> unat a \<le> 0x7A")
  case True
  then have "a - 0x20 = p" using assms by (simp add: canon_def)
  then have "a = p + 0x20" by (simp add: diff_eq_eq)
  then show ?thesis using True by simp
next
  case False
  then show ?thesis using assms by (auto simp: canon_def)
qed

lemma eqc_cases:
  assumes "\<not> (0x61 \<le> unat p \<and> unat p \<le> 0x7A)" and "eqc ic a p"
  shows "a = p \<or> (ic \<and> a = p + 0x20 \<and> 0x61 \<le> unat a \<and> unat a \<le> 0x7A)"
  using assms canon_eq [of p a] by (auto simp: eqc_def split: if_splits)

lemma passes_set:
  "p \<in> set passes \<longleftrightarrow>
     p = ([0x25, 0x34, 0x30], False, [0x40]) \<or> p = ([0x25, 0x33, 0x41], True, [0x3A]) \<or>
     p = ([0x25, 0x32, 0x34], False, [0x24]) \<or> p = ([0x25, 0x32, 0x43], True, [0x2C]) \<or>
     p = ([0x25, 0x32, 0x30], False, [0x2B]) \<or> p = ([0x25, 0x35, 0x42], True, [0x5B]) \<or>
     p = ([0x25, 0x35, 0x44], True, [0x5D])"
  by (auto simp: passes_def js_def)

lemma passMatcher_fun:
  "passMatcher p = (\<lambda>a b. eqc (fst (snd p)) a (fst p ! 1) \<and> eqc (fst (snd p)) b (fst p ! 2))"
  by (simp add: fun_eq_iff passMatcher_def)

lemma pass_rep1: "p \<in> set passes \<Longrightarrow> applyPass p = rep1 (passMatcher p) (passSub p)"
  unfolding passes_set
  by (elim disjE) (simp_all add: applyPass_def passMatcher_fun passSub_def replace_g_rep1 fun_eq_iff)

lemma eqc_False: "eqc False x p \<longleftrightarrow> x = p"
  by (simp add: eqc_def)

lemma eqc_True_iff:
  assumes "unat p < 0x61"
  shows "eqc True x p \<longleftrightarrow>
           x = p \<or> (x = p + 0x20 \<and> 0x61 \<le> unat (p + 0x20) \<and> unat (p + 0x20) \<le> 0x7A)"
proof
  assume "eqc True x p"
  then have "canon x = canon p" by (simp add: eqc_def)
  then show "x = p \<or> (x = p + 0x20 \<and> 0x61 \<le> unat (p + 0x20) \<and> unat (p + 0x20) \<le> 0x7A)"
    using canon_eq [of p x] assms by auto
next
  assume r: "x = p \<or> (x = p + 0x20 \<and> 0x61 \<le> unat (p + 0x20) \<and> unat (p + 0x20) \<le> 0x7A)"
  have cp: "canon p = p" using assms by (simp add: canon_def)
  from r show "eqc True x p"
  proof
    assume "x = p"
    then show ?thesis by (simp add: eqc_def)
  next
    assume "x = p + 0x20 \<and> 0x61 \<le> unat (p + 0x20) \<and> unat (p + 0x20) \<le> 0x7A"
    then have "canon x = p" by (simp add: canon_def)
    then show ?thesis using cp by (simp add: eqc_def)
  qed
qed

lemma passSub_ok: "p \<in> set passes \<Longrightarrow> \<not> hexish (passSub p) \<and> passSub p \<noteq> 0x25"
  unfolding passes_set
  by (elim disjE) (simp_all add: passSub_def hexish_def js_def)

lemma hexish_simps:
  "hexish 0x30" "hexish 0x32" "hexish 0x33" "hexish 0x34" "hexish 0x35"
  "hexish 0x41" "hexish 0x42" "hexish 0x43" "hexish 0x44"
  "hexish 0x61" "hexish 0x62" "hexish 0x63" "hexish 0x64"
  by (simp_all add: hexish_def js_def)

lemma passMatcher_cases:
  assumes "p \<in> set passes" and "passMatcher p a b"
  shows "(a, b) \<in> {(0x34, 0x30), (0x33, 0x41), (0x33, 0x61), (0x32, 0x34), (0x32, 0x43), (0x32, 0x63),
                    (0x32, 0x30), (0x35, 0x42), (0x35, 0x62), (0x35, 0x44), (0x35, 0x64)}"
  using assms unfolding passes_set
  by (elim disjE) (simp_all add: passMatcher_def eqc_False eqc_True_iff, blast+)

lemma passMatcher_hexish: "p \<in> set passes \<Longrightarrow> passMatcher p a b \<Longrightarrow> hexish a \<and> hexish b"
  using passMatcher_cases [of p a b] by (auto simp: hexish_simps)

lemma canon_consts:
  "canon 0x30 = 0x30" "canon 0x32 = 0x32" "canon 0x33 = 0x33" "canon 0x34 = 0x34" "canon 0x35 = 0x35"
  "canon 0x41 = 0x41" "canon 0x42 = 0x42" "canon 0x43 = 0x43" "canon 0x44 = 0x44"
  by (simp_all add: canon_def)

lemma passMatcher_canon:
  assumes "p \<in> set passes" and "passMatcher p a b"
  shows "canon a = fst p ! 1 \<and> canon b = fst p ! 2"
  using assms unfolding passes_set
  by (elim disjE) (auto simp: passMatcher_def eqc_def canon_consts)

lemma pattern_inj:
  assumes "p \<in> set passes" and "p' \<in> set passes"
    and "fst p ! 1 = fst p' ! 1" and "fst p ! 2 = fst p' ! 2"
  shows "p = p'"
  using assms unfolding passes_set
  by (elim disjE) simp_all

lemma pass_disjoint:
  assumes "p \<in> set passes" and "p' \<in> set passes" and "p \<noteq> p'"
  shows "\<not> (passMatcher p a b \<and> passMatcher p' a b)"
proof
  assume "passMatcher p a b \<and> passMatcher p' a b"
  then have "fst p ! 1 = fst p' ! 1" "fst p ! 2 = fst p' ! 2"
    using passMatcher_canon [OF assms(1), of a b] passMatcher_canon [OF assms(2), of a b] by simp_all
  then show False using pattern_inj [OF assms(1,2)] assms(3) by blast
qed

lemma applyPass_commute:
  assumes "p \<in> set passes" and "p' \<in> set passes"
  shows "applyPass p \<circ> applyPass p' = applyPass p' \<circ> applyPass p"
proof (cases "p = p'")
  case True
  then show ?thesis by simp
next
  case False
  have "rep1 (passMatcher p) (passSub p) (rep1 (passMatcher p') (passSub p') s)
      = rep1 (passMatcher p') (passSub p') (rep1 (passMatcher p) (passSub p) s)" for s
  proof (rule rep1_commute)
    show "\<And>x y. passMatcher p x y \<Longrightarrow> hexish x \<and> hexish y"
      using assms(1) by (rule passMatcher_hexish)
    show "\<And>x y. passMatcher p' x y \<Longrightarrow> hexish x \<and> hexish y"
      using assms(2) by (rule passMatcher_hexish)
    show "\<not> hexish (passSub p)" "passSub p \<noteq> 0x25"
      using passSub_ok [OF assms(1)] by simp_all
    show "\<not> hexish (passSub p')" "passSub p' \<noteq> 0x25"
      using passSub_ok [OF assms(2)] by simp_all
    show "\<And>x y. \<not> (passMatcher p x y \<and> passMatcher p' x y)"
      using assms False by (rule pass_disjoint)
  qed
  then show ?thesis
    by (simp add: fun_eq_iff pass_rep1 [OF assms(1)] pass_rep1 [OF assms(2)])
qed

lemma fold_passes_permuted:
  assumes "mset ps = mset passes"
  shows "fold applyPass ps = fold applyPass passes"
proof (rule fold_multiset_equiv [OF _ assms])
  fix x y assume "x \<in> set ps" "y \<in> set ps"
  then have "x \<in> set passes" "y \<in> set passes"
    using assms by (metis mset_eq_setD)+
  then show "applyPass x \<circ> applyPass y = applyPass y \<circ> applyPass x"
    by (rule applyPass_commute)
qed

lemma rev_passes:
  "rev passes =
     [(js ''%5D'', True, js '']''), (js ''%5B'', True, js ''[''), (js ''%20'', False, js ''+''),
      (js ''%2C'', True, js '',''), (js ''%24'', False, js ''$''), (js ''%3A'', True, js '':''),
      (js ''%40'', False, js ''@'')]"
  by (simp add: passes_def)

section \<open>The shape of encoded strings, and keys with brackets\<close>
























section \<open>What a call leaves of the store\<close>

declare forEachFrom.simps [simp del]

lemma unchanged_refl: "unchanged s s"
  by (simp add: unchanged_def)

lemma unchanged_trans: "unchanged s t \<Longrightarrow> unchanged t u \<Longrightarrow> unchanged s u"
  by (auto simp: unchanged_def)

lemma alloc_unchanged: "unchanged s0 s \<Longrightarrow> unchanged s0 (snd (alloc ob s))"
  by (auto simp: unchanged_def alloc_def)

lemma alloc_fresh: "unchanged s0 s \<Longrightarrow> next_addr s0 \<le> fst (alloc ob s)"
  by (simp add: unchanged_def alloc_def)

lemma push_unchanged: "next_addr s0 \<le> a \<Longrightarrow> unchanged s0 s \<Longrightarrow> unchanged s0 (push a v s)"
  by (auto simp: unchanged_def push_def split: option.splits hobj.splits)

lemma framedI: "(\<And>t. unchanged s0 t \<Longrightarrow> unchanged s0 (snd (m t))) \<Longrightarrow> framed s0 m"
  by (simp add: framed_def)

lemma framedD: "framed s0 m \<Longrightarrow> unchanged s0 t \<Longrightarrow> unchanged s0 (snd (m t))"
  by (simp add: framed_def)

lemma framed_returnA: "framed s0 (returnA x)"
  by (simp add: framed_def returnA_def)

lemma framed_liftE: "framed s0 (liftE r)"
  by (simp add: framed_def liftE_def)

lemma framed_readA: "framed s0 (readA f)"
  by (simp add: framed_def readA_def)

lemma framed_readE: "framed s0 (readE f)"
  by (simp add: framed_def readE_def)

lemma framed_bindA:
  assumes m: "framed s0 m" and f: "\<And>x. framed s0 (f x)"
  shows "framed s0 (bindA m f)"
proof (rule framedI)
  fix t assume u: "unchanged s0 t"
  obtain r t1 where r: "m t = (r, t1)" by (cases "m t")
  have u1: "unchanged s0 t1" using framedD [OF m u] unfolding r by simp
  show "unchanged s0 (snd (bindA m f t))"
  proof (cases r)
    case (Inl e)
    then show ?thesis using r u1 by (simp add: bindA_def)
  next
    case (Inr x)
    have "unchanged s0 (snd (f x t1))" by (rule framedD [OF f u1])
    then show ?thesis using r Inr by (simp add: bindA_def)
  qed
qed

lemma framed_if: "framed s0 m \<Longrightarrow> framed s0 n \<Longrightarrow> framed s0 (if b then m else n)"
  by simp

lemma framed_part_h: "opsFramed s0 ops \<Longrightarrow> framed s0 (part_h ops key val)"
  unfolding part_h_def opsFramed_def
  by (intro framed_bindA framed_if framed_returnA framed_liftE) blast+

lemma framed_part_v1_h: "opsFramed s0 ops \<Longrightarrow> framed s0 (part_v1_h ops key val)"
  unfolding part_v1_h_def opsFramed_def
  by (intro framed_bindA framed_if framed_returnA framed_liftE) blast+

lemma framed_pushPart_h:
  assumes "\<And>v. framed s0 (mkPart v)" and "next_addr s0 \<le> parts"
  shows "framed s0 (pushPart_h mkPart parts val)"
  unfolding pushPart_h_def
proof (rule framed_bindA [OF assms(1)])
  fix p
  show "framed s0 (\<lambda>s. (Inr (), push parts (HStr p) s))"
    by (rule framedI) (simp add: push_unchanged [OF assms(2)])
qed

lemma framed_ownElem: "framed s0 (ownElem a i)"
  by (simp add: framed_def ownElem_def)

lemma forEachFrom_unchanged:
  "(\<And>j. framed s0 (elem j)) \<Longrightarrow> (\<And>v. framed s0 (f v)) \<Longrightarrow> unchanged s0 s \<Longrightarrow>
   unchanged s0 (snd (forEachFrom elem f i len s))"
proof (induction elem f i len s rule: forEachFrom.induct)
  case (1 elem f i len s)
  note el = "1.prems"(1) and fr = "1.prems"(2) and us = "1.prems"(3)
  show ?case
  proof (cases "len \<le> i")
    case True
    then show ?thesis using us by (subst forEachFrom.simps) simp
  next
    case False
    note run = this
    obtain r s1 where r: "elem i s = (r, s1)" by (cases "elem i s")
    have u1: "unchanged s0 s1" using framedD [OF el us, of i] unfolding r by simp
    show ?thesis
    proof (cases r)
      case (Inl e)
      then show ?thesis using run r u1 by (subst forEachFrom.simps) simp
    next
      case (Inr x)
      note rx = this
      show ?thesis
      proof (cases x)
        case None
        have "unchanged s0 (snd (forEachFrom elem f (Suc i) len s1))"
          using "1.IH"(1) [OF run r [symmetric] Inr None el fr u1] .
        then show ?thesis using run r Inr None by (subst forEachFrom.simps) simp
      next
        case (Some v)
        obtain q s2 where q: "f v s1 = (q, s2)" by (cases "f v s1")
        have u2: "unchanged s0 s2" using framedD [OF fr u1, of v] unfolding q by simp
        show ?thesis
        proof (cases q)
          case (Inl e)
          then show ?thesis using run r rx Some q u2 by (subst forEachFrom.simps) simp
        next
          case (Inr u)
          have "unchanged s0 (snd (forEachFrom elem f (Suc i) len s2))"
            using "1.IH"(2) [OF run r [symmetric] rx Some q [symmetric] Inr el fr u2] .
          then show ?thesis using run r rx Some q Inr by (subst forEachFrom.simps) simp
        qed
      qed
    qed
  qed
qed

lemma framed_forEachFrom:
  "(\<And>j. framed s0 (elem j)) \<Longrightarrow> (\<And>v. framed s0 (f v)) \<Longrightarrow> framed s0 (forEachFrom elem f i len)"
  by (rule framedI) (rule forEachFrom_unchanged)

lemma framed_forEach_h:
  "opsFramed s0 ops \<Longrightarrow> (\<And>v. framed s0 (f v)) \<Longrightarrow> framed s0 (forEach_h ops f val)"
  unfolding forEach_h_def
  by (intro framed_bindA framed_forEachFrom) (simp_all add: opsFramed_def)

lemma forEachKey_unchanged:
  "(\<And>k. framed s0 (f k)) \<Longrightarrow> unchanged s0 s \<Longrightarrow> unchanged s0 (snd (forEachKey f ks s))"
proof (induction ks arbitrary: s)
  case Nil
  then show ?case by simp
next
  case (Cons k ks)
  obtain r s1 where r: "f k s = (r, s1)" by (cases "f k s")
  have u1: "unchanged s0 s1" using framedD [OF Cons.prems(1) Cons.prems(2), of k] unfolding r by simp
  show ?case
  proof (cases r)
    case (Inl e)
    then show ?thesis using r u1 by simp
  next
    case (Inr u)
    have "unchanged s0 (snd (forEachKey f ks s1))"
      using Cons.IH [OF Cons.prems(1) u1] .
    then show ?thesis using r Inr by simp
  qed
qed

lemma framed_forEachKey: "(\<And>k. framed s0 (f k)) \<Longrightarrow> framed s0 (forEachKey f ks)"
  by (rule framedI) (rule forEachKey_unchanged)

lemma framed_ownArray:
  assumes f: "\<And>v. framed s0 (f v)"
  shows "framed s0 (\<lambda>s. let (a, s1) = alloc ob s in forEachFrom (ownElem a) f i len s1)"
proof (rule framedI)
  fix t assume u: "unchanged s0 t"
  obtain a t1 where al: "alloc ob t = (a, t1)" by (cases "alloc ob t")
  have u1: "unchanged s0 t1" using alloc_unchanged [OF u, of ob] unfolding al by simp
  have "unchanged s0 (snd (forEachFrom (ownElem a) f i len t1))"
    by (rule forEachFrom_unchanged [OF framed_ownElem f u1])
  then show "unchanged s0 (snd (let (a, s1) = alloc ob t in forEachFrom (ownElem a) f i len s1))"
    using al by simp
qed

lemma framed_eachKey_h:
  assumes o: "opsFramed s0 ops" and m: "\<And>k v. framed s0 (mkPart k v)"
    and p: "next_addr s0 \<le> parts"
  shows "framed s0 (eachKey_h ops mkPart params parts key)"
proof -
  have pp: "\<And>k v. framed s0 (pushPart_h (mkPart k) parts v)"
    by (rule framed_pushPart_h [OF m p])
  have g: "framed s0 (get_op ops params key)" and a: "\<And>v. framed s0 (isArray_op ops v)"
    using o by (simp_all add: opsFramed_def)
  show ?thesis
    unfolding eachKey_h_def
    by (intro framed_bindA framed_if framed_returnA g a framed_forEach_h [OF o] pp framed_ownArray)
qed

lemma framed_defaultSerialize_h:
  assumes o: "opsFramed s0 ops" and m: "\<And>k v. framed s0 (mkPart k v)"
  shows "framed s0 (defaultSerialize_h ops mkPart params)"
proof (rule framedI)
  fix t assume u: "unchanged s0 t"
  obtain parts t1 where al: "alloc (OArr []) t = (parts, t1)"
    by (cases "alloc (OArr []) t :: nat \<times> 'a store")
  have fresh: "next_addr s0 \<le> parts"
    using alloc_fresh [OF u, of "OArr []"] unfolding al by simp
  have u1: "unchanged s0 t1"
    using alloc_unchanged [OF u, of "OArr []"] unfolding al by simp
  have k: "framed s0 (keys_op ops params)"
    using o by (simp add: opsFramed_def)
  have j: "\<And>x. framed s0 (\<lambda>s2. (Inr (join (js ''&'') (partsOf s2 parts)), s2))"
    by (simp add: framed_def)
  have "framed s0 (bindA (keys_op ops params) (\<lambda>ks.
          bindA (forEachKey (eachKey_h ops mkPart params parts) ks) (\<lambda>u s2.
            (Inr (join (js ''&'') (partsOf s2 parts)), s2))))"
    by (intro framed_bindA k framed_forEachKey framed_eachKey_h [OF o m fresh] j)
  from framedD [OF this u1] show "unchanged s0 (snd (defaultSerialize_h ops mkPart params t))"
    using al by (simp add: defaultSerialize_h_def)
qed

lemma framed_buildURL_h:
  assumes o: "opsFramed s0 ops" and f: "\<And>f. paramsSerializer = Some f \<Longrightarrow> framed s0 (f params)"
  shows "framed s0 (buildURL_h ops url params paramsSerializer)"
proof -
  have d: "framed s0 (defaultSerialize_h ops (part_h ops) params)"
    by (rule framed_defaultSerialize_h [OF o framed_part_h [OF o]])
  have u: "framed s0 (isURLSearchParams_op ops params)" and t: "framed s0 (toString_op ops params)"
    using o by (simp_all add: opsFramed_def)
  have ser: "framed s0 (case paramsSerializer of
                 Some f \<Rightarrow> f params
               | None \<Rightarrow>
                   bindA (isURLSearchParams_op ops params) (\<lambda>u.
                     if u then toString_op ops params
                     else defaultSerialize_h ops (part_h ops) params))"
  proof (cases paramsSerializer)
    case None
    then show ?thesis by (simp add: framed_bindA [OF u] t d)
  next
    case (Some g)
    then show ?thesis using f by simp
  qed
  have "framed s0 (bindA (case paramsSerializer of
                 Some f \<Rightarrow> f params
               | None \<Rightarrow>
                   bindA (isURLSearchParams_op ops params) (\<lambda>u.
                     if u then toString_op ops params
                     else defaultSerialize_h ops (part_h ops) params))
          (\<lambda>serializedParams. returnA (appendParams url serializedParams)))"
    by (rule framed_bindA [OF ser framed_returnA])
  then show ?thesis
    by (simp add: framed_def buildURL_h_def)
qed

lemma framed_buildURL_v1_h:
  assumes o: "opsFramed s0 ops"
  shows "framed s0 (buildURL_v1_h ops url params)"
proof -
  have d: "framed s0 (defaultSerialize_h ops (part_v1_h ops) params)"
    by (rule framed_defaultSerialize_h [OF o framed_part_v1_h [OF o]])
  have "framed s0 (bindA (defaultSerialize_h ops (part_v1_h ops) params)
          (\<lambda>serializedParams. returnA (appendParams url serializedParams)))"
    by (rule framed_bindA [OF d framed_returnA])
  then show ?thesis
    by (simp add: framed_def buildURL_v1_h_def)
qed

lemma opsFramed_plainOps: "opsFramed s0 (plainOps h)"
  by (simp add: opsFramed_def plainOps_def framed_readA framed_readE)

lemma buildURL_h_serializer_store:
  "snd (buildURL_h ops url params (Some f) s) = (if truthy_h params then snd (f params s) else s)"
  by (auto simp: buildURL_h_def bindA_def returnA_def split: prod.splits sum.splits)

lemma those_map_Some:
  "those (map f xs) = Some ys \<Longrightarrow> x \<in> set xs \<Longrightarrow> \<exists>y. f x = Some y"
  by (induction xs arbitrary: ys) (auto split: option.splits)

lemma treeOf_unchanged:
  assumes u: "unchanged s s'" and w: "wfStore s"
  shows "treeOf n s v = Some t \<Longrightarrow> treeOf n s' v = Some t"
proof (induction n arbitrary: v t)
  case 0
  then show ?case by (cases v) simp_all
next
  case (Suc n)
  show ?case
  proof (cases v)
    case (HRef a)
    from Suc.prems HRef obtain ob where ob: "objs s a = Some ob"
      by (auto split: option.splits)
    then have "a < next_addr s" using w by (cases "a < next_addr s") (auto simp: wfStore_def)
    then have ob': "objs s' a = Some ob" using u ob by (simp add: unchanged_def)
    show ?thesis
    proof (cases ob)
      case (OArr es)
      let ?g = "\<lambda>s e. case e of None \<Rightarrow> Some None | Some v \<Rightarrow> map_option Some (treeOf n s v)"
      obtain ts where ts: "those (map (?g s) es) = Some ts"
        using Suc.prems HRef ob OArr by auto
      have meq: "map (?g s') es = map (?g s) es"
      proof (rule map_cong [OF refl])
        fix e assume "e \<in> set es"
        then obtain y where y: "?g s e = Some y" using those_map_Some [OF ts] by blast
        show "?g s' e = ?g s e"
        proof (cases e)
          case None
          then show ?thesis by simp
        next
          case (Some x)
          then obtain z where "treeOf n s x = Some z" using y by auto
          then show ?thesis using Suc.IH Some by simp
        qed
      qed
      have "treeOf (Suc n) s' v = map_option JArr (those (map (?g s') es))"
        using HRef ob' OArr by simp
      also have "\<dots> = map_option JArr (those (map (?g s) es))"
        by (simp only: meq)
      also have "\<dots> = treeOf (Suc n) s v"
        using HRef ob OArr by simp
      finally show ?thesis using Suc.prems by simp
    next
      case (OObj kvs)
      then obtain ts where ts: "those (map (\<lambda>kv. treeOf n s (snd kv)) kvs) = Some ts"
        using Suc.prems HRef ob by auto
      have meq: "map (\<lambda>kv. treeOf n s' (snd kv)) kvs = map (\<lambda>kv. treeOf n s (snd kv)) kvs"
      proof (rule map_cong [OF refl])
        fix x assume "x \<in> set kvs"
        then obtain y where "treeOf n s (snd x) = Some y" using those_map_Some [OF ts] by blast
        then show "treeOf n s' (snd x) = treeOf n s (snd x)" using Suc.IH by simp
      qed
      have "treeOf (Suc n) s' v =
          map_option (\<lambda>vs. JObj (zip (map fst kvs) vs)) (those (map (\<lambda>kv. treeOf n s' (snd kv)) kvs))"
        using HRef ob' OObj by simp
      also have "\<dots> =
          map_option (\<lambda>vs. JObj (zip (map fst kvs) vs)) (those (map (\<lambda>kv. treeOf n s (snd kv)) kvs))"
        by (simp only: meq)
      also have "\<dots> = treeOf (Suc n) s v"
        using HRef ob OObj by simp
      finally show ?thesis using Suc.prems by simp
    qed (use Suc.prems HRef ob ob' in auto)
  qed (use Suc.prems in auto)
qed

lemma wfStore_exampleStore: "wfStore exampleStore"
  by (auto simp: wfStore_def exampleStore_def)

lemma treeOf_exampleStore:
  "treeOf 4 exampleStore (HRef 0) =
     Some (JObj [(js ''foo'', JArr [Some (JStr (js ''bar'')), Some (JStr (js ''baz''))]),
                 (js ''when'', JDate (Some 1683603440151)),
                 (js ''o'', JObj [(js ''bar'', JStr (js ''baz''))]), (js ''n'', JNull)])"
  by (simp add: exampleStore_def eval_nat_numeral)

subsection \<open>The store model on the examples\<close>

lemma toJSON_encode: "encode (js ''o'') = Inr (js ''o'')" "encode (js ''1'') = Inr (js ''1'')"
  by (simp_all add: encode_eval)

lemma toJSON_append: "appendParams (js ''/u'') (js ''o'' @ js ''='' @ js ''1'') = js ''/u?o=1''"
  by (simp add: appendParams_def slice0_def js_def)

lemmas store_eval =
  buildURL_h_def plainOps_def truthy_h_def bindA_def returnA_def liftE_def readA_def readE_def
  isURLSearchParams_h_def deref_def defaultSerialize_h_def alloc_def Object_keys_h_def
  ownEntries_h_def eachKey_h_def getProp_h_def Array_isArray_h_def forEachFrom.simps ownElem_def
  pushPart_h_def part_h_def isDate_h_def isPlainObject_h_def ToString_h_def push_def partsOf_def

lemma toJSON_eval:
  "fst (buildURL_h toJSONOps (js ''/u'') (HRef 0) None toJSONStore) = Inr (js ''/u?o=1'')"
  "objs (snd (buildURL_h toJSONOps (js ''/u'') (HRef 0) None toJSONStore)) 0 =
       Some (OObj [(js ''o'', HRef 1), (js ''x'', HNum (Finite 1))])"
  by (simp_all add: store_eval toJSONOps_def toJSONStore_def setX_def toJSON_encode toJSON_append)
lemma of_char_16_inject: "(of_char c :: 16 word) = of_char d \<longleftrightarrow> c = d"
proof
  assume e: "(of_char c :: 16 word) = of_char d"
  have u: "unat (of_char x :: 16 word) = of_char x" for x :: char
  proof -
    have "(of_char x :: nat) mod 256 = of_char x" by (rule of_char_mod_256)
    then have "(of_char x :: nat) < 256" by (metis mod_less_divisor zero_less_numeral)
    then show ?thesis by (simp add: of_char_def unat_of_nat take_bit_nat_eq_self)
  qed
  from e have "unat (of_char c :: 16 word) = unat (of_char d :: 16 word)" by simp
  then have "(of_char c :: nat) = of_char d" by (simp only: u)
  then show "c = d" by simp
qed simp

lemma js_inject: "js a = js b \<longleftrightarrow> a = b"
  unfolding js_def
proof (induction a arbitrary: b)
  case Nil
  then show ?case by auto
next
  case (Cons x a)
  then show ?case by (cases b) (auto simp: of_char_16_inject)
qed

lemma example_encode:
  "encode (js ''foo'' @ js ''[]'') = Inr (js ''foo[]'')"
  "encode (js ''bar'') = Inr (js ''bar'')"
  "encode (js ''baz'') = Inr (js ''baz'')"
  "encode (js ''when'') = Inr (js ''when'')"
  "encode (js ''2023-05-09T03:37:20.151Z'') = Inr (js ''2023-05-09T03:37:20.151Z'')"
  "encode (js ''o'') = Inr (js ''o'')"
  "encode (js ''{\"bar\":\"baz\"}'') = Inr (js ''%7B%22bar%22:%22baz%22%7D'')"
  by (simp_all add: encode_eval)

lemma example_json:
  assumes "objs s 3 = Some (OObj [(js ''bar'', HStr (js ''baz''))])" and "0 < next_addr s"
  shows "JSON_stringify_h utcHost s (HRef 3) = Inr (HStr (js ''{\"bar\":\"baz\"}''))"
proof -
  obtain k where k: "next_addr s = Suc k" using assms(2) by (cases "next_addr s") auto
  show ?thesis
    by (simp add: JSON_stringify_h_def k assms(1) QuoteJSONString_def js_def isLeadSurrogate_def isTrailSurrogate_def)
qed

lemma example_append:
  "appendParams (js ''/base/get#h'') (join (js ''&'') [js ''foo[]'' @ js ''='' @ js ''bar'', js ''foo[]'' @ js ''='' @ js ''baz'',
     js ''when'' @ js ''='' @ js ''2023-05-09T03:37:20.151Z'', js ''o'' @ js ''='' @ js ''%7B%22bar%22:%22baz%22%7D''])
   = js ''/base/get?foo[]=bar&foo[]=baz&when=2023-05-09T03:37:20.151Z&o=%7B%22bar%22:%22baz%22%7D''"
  by (simp add: appendParams_def slice0_def js_def)

lemma buildURL_h_example:
  "fst (buildURL_h (plainOps utcHost) (js ''/base/get#h'') (HRef 0) None exampleStore) =
     Inr (js ''/base/get?foo[]=bar&foo[]=baz&when=2023-05-09T03:37:20.151Z&o=%7B%22bar%22:%22baz%22%7D'')"
  by (simp add: store_eval exampleStore_def example_encode example_json example_append
      toISOString_h_def isoString_example arrayLength_h_def arrayElem_h_def forEach_h_def js_inject)
     (simp add: appendParams_def slice0_def js_def)

lemma buildURL_v1_h_example:
  "fst (buildURL_v1_h (plainOps utcHost) (js ''/base/get#h'') (HRef 0) exampleStore) =
     Inr (js ''/base/get?foo[]=bar&foo[]=baz&when=2023-05-09T03:37:20.151Z&o=%7B%22bar%22:%22baz%22%7D'')"
  by (simp add: store_eval buildURL_v1_h_def part_v1_h_def isObject_h_def exampleStore_def
      example_encode example_json example_append
      toISOString_h_def isoString_example arrayLength_h_def arrayElem_h_def forEach_h_def js_inject)
     (simp add: appendParams_def slice0_def js_def)

lemma ToString_h_cyclic_array:
  "ToString_h utcHost \<lparr>objs = [0 \<mapsto> OArr [Some (HStr (js ''x'')), None, Some (HRef 0)]], next_addr = 1\<rparr> (HRef 0)
     = js ''x,,''"
  by (simp add: ToString_h_def otherString_def js_def)

section \<open>Claims about encode\<close>

text \<open>
  C7, as stated: \<open>encode\<close> of the five-character string at-sign, colon, dollar, comma,
  space is the four-character string \<open>@:$+\<close>. The code restores the comma
  (\<open>.replace(/%2C/gi, ',')\<close>), so the result has five characters and the statement
  fails.
\<close>

theorem C7_encode_example_as_stated_fails:
  "encode (js ''@:$, '') \<noteq> Inr (js ''@:$+'')"
  by (simp add: encode_eval)

text \<open>
  C7, amended: \<open>encode\<close> of the string at-sign, colon, dollar, comma, space returns
  \<open>@:$,+\<close>: the four allow-listed characters come back unescaped, the comma included,
  and the trailing space becomes \<open>+\<close>.
\<close>

theorem C7_encode_example:
  "encode (js ''@:$, '') = Inr (js ''@:$,+'')"
  by (simp add: encode_eval)

text \<open>
  C8: \<open>encode\<close> is \<open>encodeURIComponent\<close> followed by the seven replacement passes, and
  for every input string every permutation of the seven passes gives the same result as
  the source order (on any string, so in particular after the percent-encoding pass).
\<close>

theorem C8_pass_order_irrelevant:
  "encode val = bindE (encodeURIComponent val) (\<lambda>s0. Inr (fold applyPass passes s0))
   \<and> (mset ps = mset passes \<longrightarrow>
        bindE (encodeURIComponent val) (\<lambda>s0. Inr (fold applyPass ps s0)) = encode val
        \<and> fold applyPass ps s = fold applyPass passes s)"
proof (intro conjI impI)
  show "encode val = bindE (encodeURIComponent val) (\<lambda>s0. Inr (fold applyPass passes s0))"
    by (rule encode_fold)
next
  assume "mset ps = mset passes"
  then have eq: "fold applyPass ps = fold applyPass passes"
    by (rule fold_passes_permuted)
  show "bindE (encodeURIComponent val) (\<lambda>s0. Inr (fold applyPass ps s0)) = encode val"
    unfolding eq encode_fold ..
  show "fold applyPass ps s = fold applyPass passes s"
    unfolding eq ..
qed

text \<open>C8, witness: the seven passes in reverse order.\<close>

theorem C8_pass_order_irrelevant_witness:
  "mset (rev passes) = mset passes
   \<and> bindE (encodeURIComponent (js ''@:$, []''))
        (\<lambda>s0. Inr (replace_g (js ''%40'') False (js ''@'')
                    (replace_g (js ''%3A'') True (js '':'')
                    (replace_g (js ''%24'') False (js ''$'')
                    (replace_g (js ''%2C'') True (js '','')
                    (replace_g (js ''%20'') False (js ''+'')
                    (replace_g (js ''%5B'') True (js ''['')
                    (replace_g (js ''%5D'') True (js '']'') s0))))))))
      = encode (js ''@:$, []'')
   \<and> encode (js ''@:$, []'') = Inr (js ''@:$,+[]'')"
proof -
  have m: "mset (rev passes) = mset passes" by simp
  have "bindE (encodeURIComponent (js ''@:$, []'')) (\<lambda>s0. Inr (fold applyPass (rev passes) s0))
        = encode (js ''@:$, []'')"
    using C8_pass_order_irrelevant [of "js ''@:$, []''" "rev passes"] m by blast
  then have "bindE (encodeURIComponent (js ''@:$, []''))
        (\<lambda>s0. Inr (replace_g (js ''%40'') False (js ''@'')
                    (replace_g (js ''%3A'') True (js '':'')
                    (replace_g (js ''%24'') False (js ''$'')
                    (replace_g (js ''%2C'') True (js '','')
                    (replace_g (js ''%20'') False (js ''+'')
                    (replace_g (js ''%5B'') True (js ''['')
                    (replace_g (js ''%5D'') True (js '']'') s0))))))))
      = encode (js ''@:$, []'')"
    by (simp add: rev_passes applyPass_def)
  moreover have "encode (js ''@:$, []'') = Inr (js ''@:$,+[]'')"
    by (simp add: encode_eval)
  ultimately show ?thesis using m by blast
qed

section \<open>Claims about buildURL\<close>

text \<open>
  C1, as stated: for scalar values the result is \<open>url\<close> itself followed by \<open>?\<close> (or
  \<open>&\<close>) and the segments. It fails for a url with a fragment, which is cut off first,
  and for a \<open>params\<close> with no entries, where nothing is appended.
\<close>

theorem C1_scalar_params_as_stated_fails:
  "buildURL utcHost (js ''/base/get#hash'') (JObj [(js ''foo'', JStr (js ''bar''))]) None
     \<noteq> Inr (js ''/base/get#hash'' @ js ''?'' @ js ''foo=bar'')
   \<and> buildURL utcHost (js ''/base/get'') (JObj []) None \<noteq> Inr (js ''/base/get'' @ js ''?'')"
  by (simp add: buildURL_eval)

text \<open>
  C1, amended: for every url and every \<open>params\<close> object whose values are all scalars
  (string, number, boolean), \<open>buildURL\<close> with no serializer returns the url truncated
  at its first \<open>#\<close>, followed by \<open>?\<close> (or \<open>&\<close> if the truncated url contains \<open>?\<close>) and
  one segment \<open>encode(key)=encode(value)\<close> per entry, joined by \<open>&\<close> in key-enumeration
  order; with no entries it returns the url unchanged; a URIError of \<open>encode\<close> propagates.
\<close>

theorem C1_scalar_params:
  assumes "distinct (map fst kvs)" and "\<forall>kv\<in>set kvs. isScalar (snd kv)"
  shows "buildURL h url (JObj kvs) None =
     bindE (mapE (\<lambda>kv. bindE (encode (fst kv)) (\<lambda>ek.
                        bindE (encode (ToString h (snd kv))) (\<lambda>ev. Inr (ek @ js ''='' @ ev)))) kvs)
       (\<lambda>segs. Inr (if kvs = [] then url
                    else takeWhile (\<lambda>c. c \<noteq> 0x23) url
                         @ (if 0x3F \<in> set (takeWhile (\<lambda>c. c \<noteq> 0x23) url) then js ''&'' else js ''?'')
                         @ join (js ''&'') segs))"
proof -
  let ?seg = "\<lambda>kv. bindE (encode (fst kv)) (\<lambda>ek.
                bindE (encode (ToString h (snd kv))) (\<lambda>ev. Inr (ek @ js ''='' @ ev)))"
  have "mapE (entryParts h) kvs = mapE (\<lambda>kv. bindE (?seg kv) (\<lambda>p. Inr [p])) kvs"
  proof (rule mapE_cong)
    fix kv assume "kv \<in> set kvs"
    then have "isScalar (snd kv)" using assms(2) by blast
    then show "entryParts h kv = bindE (?seg kv) (\<lambda>p. Inr [p])"
      using entryParts_other [of "snd kv" h "fst kv"] isScalar_cases [of "snd kv"] by simp
  qed
  then have "mapE (entryParts h) kvs = bindE (mapE ?seg kvs) (\<lambda>ps. Inr (map (\<lambda>p. [p]) ps))"
    by (simp only: mapE_singletons)
  then have 1: "buildURL h url (JObj kvs) None =
      bindE (mapE ?seg kvs) (\<lambda>segs. Inr (appendParams url (join (js ''&'') segs)))"
    by (simp add: buildURL_JObj [OF assms(1)] bindE_assoc)
  show ?thesis
    unfolding 1
  proof (rule bindE_cong [OF refl])
    fix segs assume r: "mapE ?seg kvs = Inr segs"
    have len: "length segs = length kvs" using r by (rule mapE_Inr_length)
    show "Inr (appendParams url (join (js ''&'') segs)) =
          Inr (if kvs = [] then url
                    else takeWhile (\<lambda>c. c \<noteq> 0x23) url
                         @ (if 0x3F \<in> set (takeWhile (\<lambda>c. c \<noteq> 0x23) url) then js ''&'' else js ''?'')
                         @ join (js ''&'') segs)"
    proof (cases "kvs = []")
      case True
      then have "segs = []" using len by simp
      then show ?thesis using True by (simp add: appendParams_Nil)
    next
      case False
      then have ne: "segs \<noteq> []" using len by auto
      have "?seg (kvs ! 0) = Inr (segs ! 0)"
        using mapE_Inr_nth [OF r, of 0] False by simp
      then have "segs ! 0 \<noteq> []"
        by (auto simp: bindE_eq_Inr_iff js_def)
      then have "hd segs \<noteq> []" using ne by (simp add: hd_conv_nth)
      then have "join (js ''&'') segs \<noteq> []" using ne by (simp add: join_nonempty)
      then show ?thesis using False by (simp add: appendParams_nonempty)
    qed
  qed
qed

text \<open>C1, witness: three scalar entries on a url with a query and a fragment.\<close>

theorem C1_scalar_params_witness:
  "distinct (map fst [(js ''a'', JNum (Finite 1)), (js ''b'', JBool True), (js ''c d'', JStr (js ''@ x''))])
   \<and> isScalar (JNum (Finite (1::int))) \<and> isScalar (JBool True :: int jsval)
   \<and> isScalar (JStr (js ''@ x'') :: int jsval)
   \<and> buildURL utcHost (js ''/base/get?z#hash'')
        (JObj [(js ''a'', JNum (Finite 1)), (js ''b'', JBool True), (js ''c d'', JStr (js ''@ x''))]) None
      = Inr (js ''/base/get?z&a=1&b=true&c+d=@+x'')"
proof -
  let ?kvs = "[(js ''a'', JNum (Finite (1::int))), (js ''b'', JBool True), (js ''c d'', JStr (js ''@ x''))]"
  have one: "integerToString 1 = js ''1''"
    by (simp add: integerToString_def decimal.simps js_def)
  have d: "distinct (map fst ?kvs)" by (simp add: js_def)
  have s: "\<forall>kv\<in>set ?kvs. isScalar (snd kv)" by (simp add: isScalar_def)
  have e1: "encode (js ''a'') = Inr (js ''a'')" by (simp add: encode_eval)
  have e2: "encode (js ''1'') = Inr (js ''1'')" by (simp add: encode_eval)
  have e3: "encode (js ''b'') = Inr (js ''b'')" by (simp add: encode_eval)
  have e4: "encode (js ''true'') = Inr (js ''true'')" by (simp add: encode_eval)
  have e5: "encode (js ''c d'') = Inr (js ''c+d'')" by (simp add: encode_eval)
  have e6: "encode (js ''@ x'') = Inr (js ''@+x'')" by (simp add: encode_eval)
  have "buildURL utcHost (js ''/base/get?z#hash'') (JObj ?kvs) None
        = Inr (js ''/base/get?z&a=1&b=true&c+d=@+x'')"
    by (subst C1_scalar_params [OF d s])
       (simp add: numberToString_def utcHost_def one e1 e2 e3 e4 e5 e6, simp add: js_def)
  then show ?thesis using d by (simp add: isScalar_def)
qed




text \<open>
  C3: in the default serialization a Date element is replaced by its \<open>toISOString()\<close>
  and a plain object by its \<open>JSON.stringify\<close> text before \<open>encode\<close> (in both
  versions); \<open>{foo: {bar: "baz"}}\<close> gives the query \<open>foo=%7B%22bar%22:%22baz%22%7D\<close>,
  with the colon restored.
\<close>

theorem C3_dates_and_objects:
  "part (h :: 'n host) key (JDate tv) =
     bindE (Date_toISOString (JDate tv :: 'n jsval)) (\<lambda>iso.
     bindE (encode key) (\<lambda>ek. bindE (encode iso) (\<lambda>ev. Inr (ek @ js ''='' @ ev))))
   \<and> part_v1 h key (JDate tv) = part h key (JDate tv)
   \<and> (\<exists>json. SerializeJSONProperty h (JObj kvs) = Some json \<and>
        part h key (JObj kvs) =
          bindE (encode key) (\<lambda>ek. bindE (encode json) (\<lambda>ev. Inr (ek @ js ''='' @ ev))))
   \<and> part_v1 h key (JObj kvs) = part h key (JObj kvs)
   \<and> buildURL h url (JObj [(key, JDate tv)]) None =
        bindE (part h key (JDate tv)) (\<lambda>p. Inr (appendParams url p))
   \<and> buildURL h url (JObj [(key, JObj kvs)]) None =
        bindE (part h key (JObj kvs)) (\<lambda>p. Inr (appendParams url p))
   \<and> Date_toISOString (JDate (Some 1683603440151) :: int jsval) = Inr (js ''2023-05-09T03:37:20.151Z'')
   \<and> SerializeJSONProperty utcHost (JObj [(js ''bar'', JStr (js ''baz''))]) = Some (js ''{\"bar\":\"baz\"}'')
   \<and> buildURL utcHost (js ''/base/get'') (JObj [(js ''foo'', JObj [(js ''bar'', JStr (js ''baz''))])]) None
        = Inr (js ''/base/get?foo=%7B%22bar%22:%22baz%22%7D'')
   \<and> buildURL_v1 utcHost (js ''/base/get'') (JObj [(js ''foo'', JObj [(js ''bar'', JStr (js ''baz''))])])
        = Inr (js ''/base/get?foo=%7B%22bar%22:%22baz%22%7D'')
   \<and> buildURL utcHost (js ''/base/get'') (JObj [(js ''date'', JDate (Some 1683603440151))]) None
        = Inr (js ''/base/get?date=2023-05-09T03:37:20.151Z'')"
proof (intro conjI)
  show "part h key (JDate tv) =
     bindE (Date_toISOString (JDate tv :: 'n jsval)) (\<lambda>iso.
     bindE (encode key) (\<lambda>ek. bindE (encode iso) (\<lambda>ev. Inr (ek @ js ''='' @ ev))))"
    by (simp add: part_def isDate_def bindE_assoc)
  show "part_v1 h key (JDate tv) = part h key (JDate tv)"
    by (simp add: part_def part_v1_def isDate_def)
  show "\<exists>json. SerializeJSONProperty h (JObj kvs) = Some json \<and>
        part h key (JObj kvs) =
          bindE (encode key) (\<lambda>ek. bindE (encode json) (\<lambda>ev. Inr (ek @ js ''='' @ ev)))"
    by (simp add: part_def isDate_def isPlainObject_def JSON_stringify_def)
  show "part_v1 h key (JObj kvs) = part h key (JObj kvs)"
    by (simp add: part_def part_v1_def isDate_def isPlainObject_def isObject_def)
  show "buildURL h url (JObj [(key, JDate tv)]) None =
        bindE (part h key (JDate tv)) (\<lambda>p. Inr (appendParams url p))"
    by (simp add: buildURL_single Array_isArray_def)
  show "buildURL h url (JObj [(key, JObj kvs)]) None =
        bindE (part h key (JObj kvs)) (\<lambda>p. Inr (appendParams url p))"
    by (simp add: buildURL_single Array_isArray_def)
  show "Date_toISOString (JDate (Some 1683603440151) :: int jsval) = Inr (js ''2023-05-09T03:37:20.151Z'')"
    by (simp add: isoString_example)
  show "SerializeJSONProperty utcHost (JObj [(js ''bar'', JStr (js ''baz''))]) = Some (js ''{\"bar\":\"baz\"}'')"
    by (simp add: QuoteJSONString_def js_def isLeadSurrogate_def isTrailSurrogate_def)
  show "buildURL utcHost (js ''/base/get'') (JObj [(js ''foo'', JObj [(js ''bar'', JStr (js ''baz''))])]) None
        = Inr (js ''/base/get?foo=%7B%22bar%22:%22baz%22%7D'')"
    by (simp add: buildURL_eval)
  show "buildURL_v1 utcHost (js ''/base/get'') (JObj [(js ''foo'', JObj [(js ''bar'', JStr (js ''baz''))])])
        = Inr (js ''/base/get?foo=%7B%22bar%22:%22baz%22%7D'')"
    by (simp add: buildURL_eval)
  show "buildURL utcHost (js ''/base/get'') (JObj [(js ''date'', JDate (Some 1683603440151))]) None
        = Inr (js ''/base/get?date=2023-05-09T03:37:20.151Z'')"
    by (simp add: buildURL_single Array_isArray_def part_def isDate_def isoString_example)
       (simp add: appendParams_def slice0_def encode_eval)
qed

text \<open>
  C4: a key whose value is null or undefined pushes no part (in both versions), so
  removing such entries does not change the result; and when every value is null or
  undefined the serialized string is empty and the url comes back unchanged, fragment
  included.
\<close>

theorem C4_null_values_omitted:
  "((getProp params key = JNull \<or> getProp params key = JUndefined) \<longrightarrow>
      eachKey h params key parts = Inr parts \<and> eachKey_v1 h params key parts = Inr parts)
   \<and> (distinct (map fst kvs) \<longrightarrow>
        buildURL h url (JObj kvs) None =
        buildURL h url (JObj (filter (\<lambda>kv. snd kv \<noteq> JNull \<and> snd kv \<noteq> JUndefined) kvs)) None)
   \<and> ((\<forall>kv \<in> set (ownEntries params). snd kv = JNull \<or> snd kv = JUndefined) \<longrightarrow>
        defaultSerialize h params = Inr [] \<and>
        (\<not> isURLSearchParams params \<longrightarrow> buildURL h url params None = Inr url) \<and>
        buildURL_v1 h url params = Inr url)
   \<and> buildURL utcHost (js ''/base/get'') (JObj [(js ''foo'', JStr (js ''bar'')), (js ''baz'', JNull)]) None
        = Inr (js ''/base/get?foo=bar'')"
proof (intro conjI impI)
  assume "getProp params key = JNull \<or> getProp params key = JUndefined"
  then show "eachKey h params key parts = Inr parts"
    by (auto simp: eachKey_def)
next
  assume "getProp params key = JNull \<or> getProp params key = JUndefined"
  then show "eachKey_v1 h params key parts = Inr parts"
    by (auto simp: eachKey_v1_def)
next
  let ?P = "\<lambda>kv :: jsstring \<times> 'a jsval. snd kv \<noteq> JNull \<and> snd kv \<noteq> JUndefined"
  assume d: "distinct (map fst kvs)"
  then have d': "distinct (map fst (filter ?P kvs))" by (rule distinct_map_filter)
  show "buildURL h url (JObj kvs) None = buildURL h url (JObj (filter ?P kvs)) None"
    unfolding buildURL_JObj [OF d] buildURL_JObj [OF d']
    by (rule mapE_filter_concat) (auto simp: entryParts_def)
next
  assume a: "\<forall>kv \<in> set (ownEntries params). snd kv = JNull \<or> snd kv = JUndefined"
  have nul: "\<And>key. key \<in> set (Object_keys params) \<Longrightarrow>
      getProp params key = JNull \<or> getProp params key = JUndefined"
    using a getProp_listed by fastforce
  have 1: "forEach (eachKey h params) (Object_keys params) [] = Inr []"
    by (rule forEach_unchanged) (use nul in \<open>auto simp: eachKey_def\<close>)
  have 2: "forEach (eachKey_v1 h params) (Object_keys params) [] = Inr []"
    by (rule forEach_unchanged) (use nul in \<open>auto simp: eachKey_v1_def\<close>)
  show "defaultSerialize h params = Inr []"
    by (simp add: defaultSerialize_def 1)
  then show "\<not> isURLSearchParams params \<Longrightarrow> buildURL h url params None = Inr url"
    by (simp add: buildURL_def serializeParams_def appendParams_Nil)
  show "buildURL_v1 h url params = Inr url"
    by (simp add: buildURL_v1_def 2 appendParams_Nil)
next
  show "buildURL utcHost (js ''/base/get'') (JObj [(js ''foo'', JStr (js ''bar'')), (js ''baz'', JNull)]) None
        = Inr (js ''/base/get?foo=bar'')"
    by (simp add: buildURL_eval)
qed

text \<open>C4, witness: an object with an undefined and a null value, a url with a fragment.\<close>

theorem C4_null_values_omitted_witness:
  "(getProp (JObj [(js ''foo'', JUndefined), (js ''baz'', JNull)] :: int jsval) (js ''baz'') = JNull
    \<or> getProp (JObj [(js ''foo'', JUndefined), (js ''baz'', JNull)] :: int jsval) (js ''baz'') = JUndefined)
   \<and> eachKey utcHost (JObj [(js ''foo'', JUndefined), (js ''baz'', JNull)]) (js ''baz'') [js ''a=b''] = Inr [js ''a=b'']
   \<and> distinct (map fst [(js ''foo'', JUndefined :: int jsval), (js ''baz'', JNull)])
   \<and> list_all (\<lambda>kv. snd kv = JNull \<or> snd kv = JUndefined)
        (ownEntries (JObj [(js ''foo'', JUndefined), (js ''baz'', JNull)] :: int jsval))
   \<and> buildURL utcHost (js ''/base/get#hash'') (JObj [(js ''foo'', JUndefined), (js ''baz'', JNull)]) None
        = Inr (js ''/base/get#hash'')
   \<and> buildURL_v1 utcHost (js ''/base/get#hash'') (JObj [(js ''foo'', JUndefined), (js ''baz'', JNull)])
        = Inr (js ''/base/get#hash'')"
proof -
  let ?p = "JObj [(js ''foo'', JUndefined), (js ''baz'', JNull)] :: int jsval"
  have g: "getProp ?p (js ''baz'') = JNull \<or> getProp ?p (js ''baz'') = JUndefined"
    by (simp add: getProp_def js_def)
  have d: "distinct (map fst [(js ''foo'', JUndefined :: int jsval), (js ''baz'', JNull)])"
    by (simp add: js_def)
  have a: "\<forall>kv \<in> set (ownEntries ?p). snd kv = JNull \<or> snd kv = JUndefined"
    by simp
  have n: "\<not> isURLSearchParams ?p" by (simp add: isURLSearchParams_def)
  have l: "list_all (\<lambda>kv. snd kv = JNull \<or> snd kv = JUndefined) (ownEntries ?p)"
    by simp
  from C4_null_values_omitted [of ?p "js ''baz''" utcHost "[js ''a=b'']" "[(js ''foo'', JUndefined), (js ''baz'', JNull)]" "js ''/base/get#hash''"]
  have "eachKey utcHost ?p (js ''baz'') [js ''a=b''] = Inr [js ''a=b'']"
    and "buildURL utcHost (js ''/base/get#hash'') ?p None = Inr (js ''/base/get#hash'')"
    and "buildURL_v1 utcHost (js ''/base/get#hash'') ?p = Inr (js ''/base/get#hash'')"
    using g a n by blast+
  then show ?thesis using g d l by blast
qed

text \<open>
  C5: whenever the serialized parameter string is non-empty, \<open>buildURL\<close> truncates the
  url at the first \<open>#\<close> and appends the string after \<open>&\<close> if the truncated url contains
  \<open>?\<close>, after \<open>?\<close> otherwise; with the two examples of the documentation.
\<close>

theorem C5_append_to_url:
  "(truthy params \<and> serializeParams h params paramsSerializer = Inr serializedParams \<and>
    serializedParams \<noteq> []
    \<longrightarrow> buildURL h url params paramsSerializer =
          Inr (takeWhile (\<lambda>c. c \<noteq> 0x23) url
               @ (if 0x3F \<in> set (takeWhile (\<lambda>c. c \<noteq> 0x23) url) then js ''&'' else js ''?'')
               @ serializedParams))
   \<and> buildURL utcHost (js ''/base/get#hash'') (JObj [(js ''foo'', JStr (js ''bar''))]) None
       = Inr (js ''/base/get?foo=bar'')
   \<and> buildURL utcHost (js ''/base/get?foo=bar'') (JObj [(js ''bar'', JStr (js ''baz''))]) None
       = Inr (js ''/base/get?foo=bar&bar=baz'')"
proof (intro conjI impI)
  assume "truthy params \<and> serializeParams h params paramsSerializer = Inr serializedParams \<and>
    serializedParams \<noteq> []"
  then show "buildURL h url params paramsSerializer =
          Inr (takeWhile (\<lambda>c. c \<noteq> 0x23) url
               @ (if 0x3F \<in> set (takeWhile (\<lambda>c. c \<noteq> 0x23) url) then js ''&'' else js ''?'')
               @ serializedParams)"
    by (simp add: buildURL_def appendParams_nonempty)
next
  show "buildURL utcHost (js ''/base/get#hash'') (JObj [(js ''foo'', JStr (js ''bar''))]) None
       = Inr (js ''/base/get?foo=bar'')"
    by (simp add: buildURL_eval)
next
  show "buildURL utcHost (js ''/base/get?foo=bar'') (JObj [(js ''bar'', JStr (js ''baz''))]) None
       = Inr (js ''/base/get?foo=bar&bar=baz'')"
    by (simp add: buildURL_eval)
qed

text \<open>C5, witness: a URLSearchParams on a url with a query and a fragment.\<close>

theorem C5_append_to_url_witness:
  "truthy (JURLSearchParams [(js ''a'', js ''b'')] :: int jsval) \<and>
   serializeParams utcHost (JURLSearchParams [(js ''a'', js ''b'')]) None = Inr (js ''a=b'') \<and>
   js ''a=b'' \<noteq> [] \<and>
   buildURL utcHost (js ''/more/get?x=1#frag?'') (JURLSearchParams [(js ''a'', js ''b'')]) None
     = Inr (js ''/more/get?x=1&a=b'')"
proof -
  have p: "truthy (JURLSearchParams [(js ''a'', js ''b'')] :: int jsval) \<and>
      serializeParams utcHost (JURLSearchParams [(js ''a'', js ''b'')]) None = Inr (js ''a=b'') \<and>
      js ''a=b'' \<noteq> []"
    by (simp add: truthy_def serializeParams_def isURLSearchParams_def URLSearchParams_toString_def
        urlencoded_def urlencodedByte_def js_def utf8_def isLeadSurrogate_def isTrailSurrogate_def)
  have "buildURL utcHost (js ''/more/get?x=1#frag?'') (JURLSearchParams [(js ''a'', js ''b'')]) None =
          Inr (takeWhile (\<lambda>c. c \<noteq> 0x23) (js ''/more/get?x=1#frag?'')
               @ (if 0x3F \<in> set (takeWhile (\<lambda>c. c \<noteq> 0x23) (js ''/more/get?x=1#frag?'')) then js ''&'' else js ''?'')
               @ js ''a=b'')"
    using C5_append_to_url [of "JURLSearchParams [(js ''a'', js ''b'')]" utcHost None "js ''a=b''" "js ''/more/get?x=1#frag?''"] p
    by blast
  then show ?thesis using p by (simp add: js_def)
qed

text \<open>
  C6, as stated: for every non-null \<open>params\<close> a supplied serializer is called and its
  result appended. It fails for the empty string, which is not null and for which
  \<open>buildURL\<close> returns before the serializer is looked at.
\<close>

theorem C6_serializer_priority_as_stated_fails:
  "(JStr [] :: int jsval) \<noteq> JNull \<and>
   buildURL utcHost (js ''/more/get'') (JStr []) (Some (fixedSerializer (js ''a=1'')))
     \<noteq> Inr (js ''/more/get?a=1'')"
  by (simp add: buildURL_eval)

text \<open>
  C6, amended: for every truthy \<open>params\<close>, a supplied serializer is called with
  \<open>params\<close> and its return value is appended verbatim (also when \<open>params\<close> is a
  URLSearchParams); with no serializer a URLSearchParams is appended in its string
  conversion; otherwise the default serialization applies.
\<close>

theorem C6_serializer_priority:
  "truthy params \<longrightarrow>
     buildURL h url params (Some f) =
       bindE (f params) (\<lambda>s. Inr (if s = [] then url
          else takeWhile (\<lambda>c. c \<noteq> 0x23) url
               @ (if 0x3F \<in> set (takeWhile (\<lambda>c. c \<noteq> 0x23) url) then js ''&'' else js ''?'') @ s))
     \<and> (\<forall>ps. params = JURLSearchParams ps \<longrightarrow>
          buildURL h url params None =
            Inr (if URLSearchParams_toString ps = [] then url
                 else takeWhile (\<lambda>c. c \<noteq> 0x23) url
                      @ (if 0x3F \<in> set (takeWhile (\<lambda>c. c \<noteq> 0x23) url) then js ''&'' else js ''?'')
                      @ URLSearchParams_toString ps))
     \<and> (\<not> isURLSearchParams params \<longrightarrow>
          buildURL h url params None =
            bindE (defaultSerialize h params) (\<lambda>s. Inr (if s = [] then url
              else takeWhile (\<lambda>c. c \<noteq> 0x23) url
                   @ (if 0x3F \<in> set (takeWhile (\<lambda>c. c \<noteq> 0x23) url) then js ''&'' else js ''?'') @ s)))"
proof -
  have ap: "\<And>s. appendParams url s = (if s = [] then url
          else takeWhile (\<lambda>c. c \<noteq> 0x23) url
               @ (if 0x3F \<in> set (takeWhile (\<lambda>c. c \<noteq> 0x23) url) then js ''&'' else js ''?'') @ s)"
    by (simp add: appendParams_Nil appendParams_nonempty)
  have t: "\<And>ps. truthy (JURLSearchParams ps :: 'a jsval)"
    by (simp add: truthy_def)
  show ?thesis
    by (auto simp: buildURL_def serializeParams_def isURLSearchParams_def ap t)
qed

text \<open>C6, witness: the three branches on concrete inputs.\<close>

theorem C6_serializer_priority_witness:
  "truthy (JURLSearchParams [(js ''a'', js ''b'')] :: int jsval) \<and>
   buildURL utcHost (js ''/more/get'') (JURLSearchParams [(js ''a'', js ''b'')])
      (Some (fixedSerializer (js ''x=@ %[]''))) = Inr (js ''/more/get?x=@ %[]'') \<and>
   buildURL utcHost (js ''/more/get'') (JURLSearchParams [(js ''a'', js ''b'')]) None
      = Inr (js ''/more/get?a=b'') \<and>
   \<not> isURLSearchParams (JObj [(js ''a'', JStr (js ''b c''))] :: int jsval) \<and>
   buildURL utcHost (js ''/more/get'') (JObj [(js ''a'', JStr (js ''b c''))]) None
      = Inr (js ''/more/get?a=b+c'')"
proof -
  have t: "truthy (JURLSearchParams [(js ''a'', js ''b'')] :: int jsval)"
    by (simp add: truthy_def)
  have t2: "truthy (JObj [(js ''a'', JStr (js ''b c''))] :: int jsval)"
    by (simp add: truthy_def)
  have u: "URLSearchParams_toString [(js ''a'', js ''b'')] = js ''a=b''"
    by (simp add: URLSearchParams_toString_def
        urlencoded_def urlencodedByte_def js_def utf8_def isLeadSurrogate_def isTrailSurrogate_def)
  have d: "defaultSerialize utcHost (JObj [(js ''a'', JStr (js ''b c''))]) = Inr (js ''a=b+c'')"
    by (simp add: buildURL_eval)
  have n: "\<not> isURLSearchParams (JObj [(js ''a'', JStr (js ''b c''))] :: int jsval)"
    by (simp add: isURLSearchParams_def)
  show ?thesis
    using t n t2 u d
      C6_serializer_priority [of "JURLSearchParams [(js ''a'', js ''b'')]" utcHost "js ''/more/get''"
         "fixedSerializer (js ''x=@ %[]'')"]
      C6_serializer_priority [of "JObj [(js ''a'', JStr (js ''b c''))]" utcHost "js ''/more/get''"
         "fixedSerializer (js ''x=@ %[]'')"]
    by (simp add: fixedSerializer_def js_def)
qed

text \<open>
  C10: for every url and every falsy \<open>params\<close> (undefined, null, false, 0, -0, NaN, the
  empty string), both versions of \<open>buildURL\<close> return the url unchanged, whatever the
  serializer is: it is not called.
\<close>

theorem C10_falsy_params:
  assumes "params \<in> {JUndefined, JNull, JBool False, JNum PosZero, JNum NegZero, JNum NaN, JStr []}"
  shows "buildURL h url params paramsSerializer = Inr url \<and> buildURL_v1 h url params = Inr url"
  using assms by (auto simp: buildURL_def serializeParams_def buildURL_v1_def truthy_def)

text \<open>C10, witness: the empty string, a url with a fragment, a serializer that throws.\<close>

theorem C10_falsy_params_witness:
  "(JStr [] :: int jsval) \<in> {JUndefined, JNull, JBool False, JNum PosZero, JNum NegZero, JNum NaN, JStr []} \<and>
   buildURL utcHost (js ''/base/get#hash'') (JStr []) (Some throwingSerializer) = Inr (js ''/base/get#hash'') \<and>
   buildURL_v1 utcHost (js ''/base/get#hash'') (JStr []) = Inr (js ''/base/get#hash'')"
proof -
  have f: "(JStr [] :: int jsval) \<in> {JUndefined, JNull, JBool False, JNum PosZero, JNum NegZero, JNum NaN, JStr []}"
    by simp
  show ?thesis
    using f C10_falsy_params [OF f, of utcHost "js ''/base/get#hash''" "Some throwingSerializer"]
    by simp
qed

section \<open>Claims about the objects of the caller\<close>

text \<open>
  C9, as stated: for every \<open>params\<close> and every serializer, \<open>params\<close> is after the call
  what it was before. It fails in two ways, because \<open>buildURL\<close> hands the objects of the
  caller themselves, not copies, to code of the caller. A serializer that deletes the
  properties of the object it is given leaves \<open>params\<close> empty. And with no serializer,
  for \<open>p = {o: {toJSON() { p.x = 1; return 1 }}}\<close> the call \<open>buildURL('/u', p)\<close> returns
  \<open>/u?o=1\<close> and leaves \<open>p\<close> with the new key \<open>x\<close>: \<open>JSON.stringify(val)\<close> runs \<open>toJSON\<close>.
\<close>

theorem C9_params_not_mutated_as_stated_fails:
  "objs (snd (buildURL_h (plainOps utcHost) (js ''/base/get'') (HRef 0)
                (Some (clearingSerializer (js ''x=1''))) exampleStore)) 0
   \<noteq> objs exampleStore 0
   \<and> fst (buildURL_h toJSONOps (js ''/u'') (HRef 0) None toJSONStore) = Inr (js ''/u?o=1'')
   \<and> objs toJSONStore 0 = Some (OObj [(js ''o'', HRef 1)])
   \<and> objs (snd (buildURL_h toJSONOps (js ''/u'') (HRef 0) None toJSONStore)) 0 =
       Some (OObj [(js ''o'', HRef 1), (js ''x'', HNum (Finite 1))])"
proof -
  have a: "objs (snd (buildURL_h (plainOps utcHost) (js ''/base/get'') (HRef 0)
                  (Some (clearingSerializer (js ''x=1''))) exampleStore)) 0
           \<noteq> objs exampleStore 0"
    by (simp add: buildURL_h_def bindA_def returnA_def truthy_h_def clearingSerializer_def
        exampleStore_def)
  have b: "objs toJSONStore 0 = Some (OObj [(js ''o'', HRef 1)])"
    by (simp add: toJSONStore_def)
  show ?thesis
    using a b by (simp add: toJSON_eval)
qed

text \<open>
  C9, amended. The statements of \<open>buildURL\<close> itself, in chapter 10 and in chapter 4,
  write only to the arrays the call creates (\<open>parts\<close>, \<open>[val]\<close>). So every object that
  existed before the call, \<open>params\<close> and what it holds among them, is after the call what
  it was before, provided the code of the caller that the call runs does not write to
  those objects itself: the serializer if there is one, and otherwise what is behind
  \<open>Object.keys(params)\<close>, \<open>params[key]\<close>, the type tests, \<open>forEach\<close>, \<open>toISOString\<close>,
  \<open>JSON.stringify\<close> and the conversion to a string in \<open>encodeURIComponent\<close> (accessor
  properties, \<open>toJSON\<close>, \<open>toString\<close>, \<open>valueOf\<close>, proxy traps). With a serializer the
  store after the call is the one the serializer's own call leaves. For plain data and
  no serializer the condition holds: every object is what it was, and the value read
  under \<open>params\<close> (keys, values, nested arrays and objects) is the same.
\<close>

theorem C9_params_not_mutated:
  "(opsFramed s ops \<and> (case paramsSerializer of None \<Rightarrow> True | Some g \<Rightarrow> framed s (g params)) \<longrightarrow>
      unchanged s (snd (buildURL_h ops url params paramsSerializer s))
      \<and> unchanged s (snd (buildURL_v1_h ops url params s)))
   \<and> snd (buildURL_h ops url params (Some f) s) = (if truthy_h params then snd (f params s) else s)
   \<and> (unchanged s (snd (f params s)) \<longrightarrow> unchanged s (snd (buildURL_h ops url params (Some f) s)))
   \<and> unchanged s (snd (buildURL_h (plainOps h) url params None s))
   \<and> unchanged s (snd (buildURL_v1_h (plainOps h) url params s))
   \<and> (wfStore s \<and> treeOf n s params = Some t \<longrightarrow>
        treeOf n (snd (buildURL_h (plainOps h) url params None s)) params = Some t
        \<and> treeOf n (snd (buildURL_v1_h (plainOps h) url params s)) params = Some t)"
proof -
  have gen: "unchanged s (snd (buildURL_h ops url params paramsSerializer s))
             \<and> unchanged s (snd (buildURL_v1_h ops url params s))"
    if "opsFramed s ops \<and> (case paramsSerializer of None \<Rightarrow> True | Some g \<Rightarrow> framed s (g params))"
  proof -
    have o: "opsFramed s ops" using that by simp
    have g: "\<And>g. paramsSerializer = Some g \<Longrightarrow> framed s (g params)" using that by simp
    show ?thesis
      using framedD [OF framed_buildURL_h [OF o g] unchanged_refl]
        framedD [OF framed_buildURL_v1_h [OF o] unchanged_refl] by simp
  qed
  have ser: "snd (buildURL_h ops url params (Some f) s) = (if truthy_h params then snd (f params s) else s)"
    by (rule buildURL_h_serializer_store)
  have ser': "unchanged s (snd (buildURL_h ops url params (Some f) s))" if "unchanged s (snd (f params s))"
    using that by (simp add: buildURL_h_serializer_store unchanged_refl)
  have p: "unchanged s (snd (buildURL_h (plainOps h) url params None s))"
  proof -
    have "framed s (buildURL_h (plainOps h) url params None)"
      by (rule framed_buildURL_h [OF opsFramed_plainOps]) simp
    then show ?thesis
      by (rule framedD [OF _ unchanged_refl])
  qed
  have p1: "unchanged s (snd (buildURL_v1_h (plainOps h) url params s))"
    by (rule framedD [OF framed_buildURL_v1_h [OF opsFramed_plainOps] unchanged_refl])
  have tr: "treeOf n (snd (buildURL_h (plainOps h) url params None s)) params = Some t
        \<and> treeOf n (snd (buildURL_v1_h (plainOps h) url params s)) params = Some t"
    if "wfStore s \<and> treeOf n s params = Some t"
    using that treeOf_unchanged [OF p] treeOf_unchanged [OF p1] by blast
  show ?thesis
    using gen ser ser' p p1 tr by blast
qed

text \<open>
  C9, witness: the example store with the operations on plain data, with no serializer
  and with a serializer that only returns a string.
\<close>

theorem C9_params_not_mutated_witness:
  "opsFramed exampleStore (plainOps utcHost)
   \<and> framed exampleStore (fixedSerializer_h (js ''x=1'') (HRef 0))
   \<and> unchanged exampleStore
        (snd (buildURL_h (plainOps utcHost) (js ''/base/get'') (HRef 0)
               (Some (fixedSerializer_h (js ''x=1''))) exampleStore))
   \<and> unchanged exampleStore (snd (buildURL_v1_h (plainOps utcHost) (js ''/base/get'') (HRef 0) exampleStore))
   \<and> unchanged exampleStore (snd (fixedSerializer_h (js ''x=1'') (HRef 0) exampleStore))
   \<and> wfStore exampleStore
   \<and> treeOf 4 exampleStore (HRef 0) =
       Some (JObj [(js ''foo'', JArr [Some (JStr (js ''bar'')), Some (JStr (js ''baz''))]),
                   (js ''when'', JDate (Some 1683603440151)),
                   (js ''o'', JObj [(js ''bar'', JStr (js ''baz''))]), (js ''n'', JNull)])
   \<and> treeOf 4 (snd (buildURL_h (plainOps utcHost) (js ''/base/get'') (HRef 0) None exampleStore)) (HRef 0) =
       Some (JObj [(js ''foo'', JArr [Some (JStr (js ''bar'')), Some (JStr (js ''baz''))]),
                   (js ''when'', JDate (Some 1683603440151)),
                   (js ''o'', JObj [(js ''bar'', JStr (js ''baz''))]), (js ''n'', JNull)])
   \<and> treeOf 4 (snd (buildURL_v1_h (plainOps utcHost) (js ''/base/get'') (HRef 0) exampleStore)) (HRef 0) =
       Some (JObj [(js ''foo'', JArr [Some (JStr (js ''bar'')), Some (JStr (js ''baz''))]),
                   (js ''when'', JDate (Some 1683603440151)),
                   (js ''o'', JObj [(js ''bar'', JStr (js ''baz''))]), (js ''n'', JNull)])"
proof -
  have o: "opsFramed exampleStore (plainOps utcHost)"
    by (rule opsFramed_plainOps)
  have g: "framed exampleStore (fixedSerializer_h (js ''x=1'') (HRef 0))"
    by (simp add: framed_def fixedSerializer_h_def)
  have f: "unchanged exampleStore (snd (fixedSerializer_h (js ''x=1'') (HRef 0) exampleStore))"
    by (simp add: fixedSerializer_h_def unchanged_refl)
  note th = C9_params_not_mutated [where s = exampleStore and ops = "plainOps utcHost"
      and paramsSerializer = "Some (fixedSerializer_h (js ''x=1''))" and params = "HRef 0"
      and url = "js ''/base/get''" and f = "fixedSerializer_h (js ''x=1'')" and h = utcHost
      and n = 4]
  have c: "(case Some (fixedSerializer_h (js ''x=1'')) of None \<Rightarrow> True
            | Some g \<Rightarrow> framed exampleStore (g (HRef 0 :: int hval)))"
    using g by simp
  show ?thesis
    using th o g c f wfStore_exampleStore treeOf_exampleStore by blast
qed

end
